theory Spec2Isabelle
  imports Complex_Main "HOL-Library.Log_Nat"
begin

section \<open>Strings\<close>

text \<open>
  A Python \<open>str\<close> is modelled as a \<open>string\<close>: a list of 8-bit characters, read as the
  code points 0 to 255. Inputs with code points beyond 255 are outside the model, and every
  statement of this theory is about the strings of code points below 256 only. Beyond 255
  the library knows further whitespace and further decimal digits, which \<open>str.strip\<close>,
  \<open>float\<close> and the \<open>\d\<close> of \<open>strptime\<close> treat like the ones below.
\<close>

definition is_space :: "char \<Rightarrow> bool" where
  \<comment> \<open>\<open>str.isspace\<close> on the code points below 256\<close>
  "is_space c = ((of_char c :: nat) \<in> {9, 10, 11, 12, 13, 28, 29, 30, 31, 32, 133, 160})"

definition strip :: "string \<Rightarrow> string" where
  \<comment> \<open>\<open>str.strip()\<close> with no argument\<close>
  "strip s = rev (dropWhile is_space (rev (dropWhile is_space s)))"

definition is_digit :: "char \<Rightarrow> bool" where
  \<comment> \<open>the regular-expression class \<open>\d\<close> restricted to the code points below 256, where
      it is the ASCII digits; beyond 255 it has the decimal digits of the other scripts\<close>
  "is_digit c = (48 \<le> (of_char c :: nat) \<and> (of_char c :: nat) \<le> 57)"

definition digit_val :: "char \<Rightarrow> nat" where
  "digit_val c = of_char c - 48"

definition digit_char :: "nat \<Rightarrow> char" where
  "digit_char n = char_of (48 + n)"

definition in_range :: "char \<Rightarrow> char \<Rightarrow> char \<Rightarrow> bool" where
  \<comment> \<open>the character class \<open>[lo-hi]\<close>\<close>
  "in_range lo hi c = ((of_char lo :: nat) \<le> of_char c \<and> (of_char c :: nat) \<le> of_char hi)"

section \<open>Exceptions\<close>

datatype exc =
    ValueError
  | TypeError
  | EOFError
  | OSError string
  | UnicodeDecodeError string
  | CsvError string

fun exc_str :: "exc \<Rightarrow> string" where
  \<comment> \<open>the text \<open>str(e)\<close> of the exceptions whose text the program prints\<close>
  "exc_str (OSError m) = m"
| "exc_str (UnicodeDecodeError m) = m"
| "exc_str (CsvError m) = m"
| "exc_str _ = []"

section \<open>Dates: \<open>datetime.strptime(s, "%Y-%m-%d")\<close>\<close>

text \<open>
  \<open>strptime\<close> compiles the format to the regular expression
  \<^verbatim>\<open>(?P<Y>\d\d\d\d)-(?P<m>1[0-2]|0[1-9]|[1-9])-(?P<d>3[0-1]|[1-2]\d|0[1-9]|[1-9]| [1-9])\<close>,
  matches it at the start of the string, rejects the string when text remains after the
  match, and builds a date from the three numbers. Each group below returns every way it
  can match, in the order the alternatives are tried, with the text left over.
\<close>

fun re_Y :: "string \<Rightarrow> (nat \<times> string) list" where
  "re_Y (a # b # c # d # r) =
     (if is_digit a \<and> is_digit b \<and> is_digit c \<and> is_digit d
      then [(1000 * digit_val a + 100 * digit_val b + 10 * digit_val c + digit_val d, r)]
      else [])"
| "re_Y _ = []"

fun re_lit :: "char \<Rightarrow> string \<Rightarrow> string list" where
  "re_lit x (c # r) = (if c = x then [r] else [])"
| "re_lit x [] = []"

fun re_two :: "(char \<Rightarrow> bool) \<Rightarrow> (char \<Rightarrow> bool) \<Rightarrow> string \<Rightarrow> (nat \<times> string) list" where
  \<comment> \<open>two characters, each from its class; \<open>int\<close> of the two gives the number\<close>
  "re_two p q (a # b # r) =
     (if p a \<and> q b then [((if is_digit a then 10 * digit_val a else 0) + digit_val b, r)] else [])"
| "re_two p q _ = []"

fun re_one :: "(char \<Rightarrow> bool) \<Rightarrow> string \<Rightarrow> (nat \<times> string) list" where
  "re_one p (a # r) = (if p a then [(digit_val a, r)] else [])"
| "re_one p [] = []"

definition re_m :: "string \<Rightarrow> (nat \<times> string) list" where
  "re_m s = re_two ((=) CHR ''1'') (in_range CHR ''0'' CHR ''2'') s
          @ re_two ((=) CHR ''0'') (in_range CHR ''1'' CHR ''9'') s
          @ re_one (in_range CHR ''1'' CHR ''9'') s"

definition re_d :: "string \<Rightarrow> (nat \<times> string) list" where
  "re_d s = re_two ((=) CHR ''3'') (in_range CHR ''0'' CHR ''1'') s
          @ re_two (in_range CHR ''1'' CHR ''2'') is_digit s
          @ re_two ((=) CHR ''0'') (in_range CHR ''1'' CHR ''9'') s
          @ re_one (in_range CHR ''1'' CHR ''9'') s
          @ re_two ((=) CHR '' '') (in_range CHR ''1'' CHR ''9'') s"

definition re_ymd :: "string \<Rightarrow> (nat \<times> nat \<times> nat \<times> string) list" where
  \<comment> \<open>all matches of the whole expression, the one the matcher returns first\<close>
  "re_ymd s = concat (map (\<lambda>(y, r0). concat (map (\<lambda>r1. concat (map (\<lambda>(m, r2).
       concat (map (\<lambda>r3. map (\<lambda>(d, r4). (y, m, d, r4)) (re_d r3)) (re_lit CHR ''-'' r2)))
       (re_m r1))) (re_lit CHR ''-'' r0))) (re_Y s))"

definition is_leap :: "nat \<Rightarrow> bool" where
  "is_leap y = (y mod 4 = 0 \<and> (y mod 100 \<noteq> 0 \<or> y mod 400 = 0))"

definition days_in_month :: "nat \<Rightarrow> nat \<Rightarrow> nat" where
  "days_in_month y m =
     (if m = 2 then (if is_leap y then 29 else 28)
      else if m = 4 \<or> m = 6 \<or> m = 9 \<or> m = 11 then 30 else 31)"

definition make_date :: "nat \<Rightarrow> nat \<Rightarrow> nat \<Rightarrow> exc + (nat \<times> nat \<times> nat)" where
  \<comment> \<open>the constructor \<open>datetime(y, m, d)\<close>: years 1 to 9999\<close>
  "make_date y m d =
     (if 1 \<le> y \<and> y \<le> 9999 \<and> 1 \<le> m \<and> m \<le> 12 \<and> 1 \<le> d \<and> d \<le> days_in_month y m
      then Inr (y, m, d) else Inl ValueError)"

definition strptime_ymd :: "string \<Rightarrow> exc + (nat \<times> nat \<times> nat)" where
  "strptime_ymd s =
     (case re_ymd s of
        [] \<Rightarrow> Inl ValueError
      | (y, m, d, rest) # _ \<Rightarrow> if rest \<noteq> [] then Inl ValueError else make_date y m d)"

definition is_valid_date :: "string \<Rightarrow> bool" where
  "is_valid_date date_str =
     (case strptime_ymd date_str of Inr _ \<Rightarrow> True | Inl ValueError \<Rightarrow> False | Inl _ \<Rightarrow> False)"

section \<open>Floating-point numbers\<close>

text \<open>
  A Python \<open>float\<close> is an IEEE 754 binary64 value. A finite non-zero value is kept as the
  rational number it denotes, \<open>Finite 0\<close> is \<open>0.0\<close> and \<open>NegZero\<close> is \<open>-0.0\<close>. Every
  operation rounds its exact result to the nearest binary64 value, ties to even, as the
  hardware does.
\<close>

datatype pyfloat = Finite rat | NegZero | PosInf | NegInf | NaN

definition pow2 :: "int \<Rightarrow> rat" where
  "pow2 k = (if 0 \<le> k then 2 ^ nat k else 1 / 2 ^ nat (- k))"

definition pow10 :: "int \<Rightarrow> rat" where
  "pow10 k = (if 0 \<le> k then 10 ^ nat k else 1 / 10 ^ nat (- k))"

definition ilog2 :: "rat \<Rightarrow> int" where
  \<comment> \<open>for \<open>0 < q\<close>, the exponent \<open>e\<close> with \<open>2 ^ e \<le> q < 2 ^ (e + 1)\<close>\<close>
  "ilog2 q = (if 1 \<le> q then bitlen \<lfloor>q\<rfloor> - 1 else - bitlen (\<lceil>1 / q\<rceil> - 1))"

definition rhe :: "rat \<Rightarrow> int" where
  \<comment> \<open>round to the nearest integer, ties to the even one\<close>
  "rhe x = (let f = \<lfloor>x\<rfloor>; r = x - of_int f
            in if r < 1 / 2 then f else if 1 / 2 < r then f + 1
               else if even f then f else f + 1)"

definition quantum :: "rat \<Rightarrow> rat" where
  \<comment> \<open>the spacing of the binary64 values around \<open>q > 0\<close>: 53 significant bits, least
      exponent -1022\<close>
  "quantum q = pow2 (max (ilog2 q) (- 1022) - 52)"

definition round_mag :: "rat \<Rightarrow> rat" where
  \<comment> \<open>a magnitude \<open>q \<ge> 0\<close> rounded to a multiple of its quantum\<close>
  "round_mag q = (if q = 0 then 0 else of_int (rhe (q / quantum q)) * quantum q)"

definition fl_sgn :: "bool \<Rightarrow> rat \<Rightarrow> pyfloat" where
  \<comment> \<open>the binary64 value nearest to the magnitude \<open>q \<ge> 0\<close> with the given sign; a rounded
      magnitude with an exponent above 1023, that is \<open>2 ^ 1024\<close> or more, is an infinity\<close>
  "fl_sgn neg q =
     (let r = round_mag q
      in if r = 0 then (if neg then NegZero else Finite 0)
         else if 1023 < ilog2 r then (if neg then NegInf else PosInf)
         else Finite (if neg then - r else r))"

definition fl :: "rat \<Rightarrow> pyfloat" where
  \<comment> \<open>rounding of an exact result; an exact zero result of a sum is \<open>0.0\<close>\<close>
  "fl q = (if q = 0 then Finite 0 else fl_sgn (q < 0) \<bar>q\<bar>)"

fun fneg :: "pyfloat \<Rightarrow> pyfloat" where
  "fneg (Finite q) = (if q = 0 then NegZero else Finite (- q))"
| "fneg NegZero = Finite 0"
| "fneg PosInf = NegInf"
| "fneg NegInf = PosInf"
| "fneg NaN = NaN"

fun fadd :: "pyfloat \<Rightarrow> pyfloat \<Rightarrow> pyfloat" where
  "fadd NaN _ = NaN"
| "fadd _ NaN = NaN"
| "fadd PosInf NegInf = NaN"
| "fadd NegInf PosInf = NaN"
| "fadd PosInf _ = PosInf"
| "fadd _ PosInf = PosInf"
| "fadd NegInf _ = NegInf"
| "fadd _ NegInf = NegInf"
| "fadd NegZero y = y"
| "fadd x NegZero = x"
| "fadd (Finite a) (Finite b) = fl (a + b)"

definition fsub :: "pyfloat \<Rightarrow> pyfloat \<Rightarrow> pyfloat" where
  "fsub x y = fadd x (fneg y)"

fun fkey :: "pyfloat \<Rightarrow> (int \<times> rat) option" where
  \<comment> \<open>the position of a value in the order of the comparisons; none for \<open>nan\<close>\<close>
  "fkey (Finite q) = Some (0, q)"
| "fkey NegZero = Some (0, 0)"
| "fkey PosInf = Some (1, 0)"
| "fkey NegInf = Some (- 1, 0)"
| "fkey NaN = None"

definition f_lt :: "pyfloat \<Rightarrow> pyfloat \<Rightarrow> bool" where
  "f_lt x y = (case (fkey x, fkey y) of
                 (Some (i, a), Some (j, b)) \<Rightarrow> i < j \<or> (i = j \<and> a < b)
               | _ \<Rightarrow> False)"

definition f_le :: "pyfloat \<Rightarrow> pyfloat \<Rightarrow> bool" where
  "f_le x y = (case (fkey x, fkey y) of
                 (Some (i, a), Some (j, b)) \<Rightarrow> i < j \<or> (i = j \<and> a \<le> b)
               | _ \<Rightarrow> False)"

definition f_gt :: "pyfloat \<Rightarrow> pyfloat \<Rightarrow> bool" where
  "f_gt x y = f_lt y x"

definition f_eq :: "pyfloat \<Rightarrow> pyfloat \<Rightarrow> bool" where
  \<comment> \<open>Python's \<open>==\<close> on floats: \<open>-0.0 == 0.0\<close>, and \<open>nan\<close> equals nothing\<close>
  "f_eq x y = (case (fkey x, fkey y) of (Some a, Some b) \<Rightarrow> a = b | _ \<Rightarrow> False)"

definition round_cents :: "rat \<Rightarrow> rat" where
  \<comment> \<open>a magnitude \<open>q \<ge> 0\<close> rounded to two decimals, ties to even\<close>
  "round_cents q = of_int (rhe (q * 100)) / 100"

fun round2 :: "pyfloat \<Rightarrow> pyfloat" where
  \<comment> \<open>\<open>round(x, 2)\<close>: the exact value is rounded to two decimals (ties to even) and the
      result to the nearest binary64 value\<close>
  "round2 (Finite q) = (if q = 0 then Finite 0 else fl_sgn (q < 0) (round_cents \<bar>q\<bar>))"
| "round2 x = x"

subsection \<open>Decimal text\<close>

function dec :: "int \<Rightarrow> string" where
  \<comment> \<open>\<open>str(n)\<close> of an integer \<open>n \<ge> 0\<close>\<close>
  "dec n = (if n < 10 then [digit_char (nat n)]
            else dec (n div 10) @ [digit_char (nat (n mod 10))])"
  by pat_completeness auto
termination
  by (relation "measure nat") auto

declare dec.simps [simp del]

definition dec_val :: "string \<Rightarrow> int" where
  \<comment> \<open>the number a string of digits denotes\<close>
  "dec_val ds = foldl (\<lambda>n c. 10 * n + int (digit_val c)) 0 ds"

fun fmt2 :: "pyfloat \<Rightarrow> string" where
  \<comment> \<open>\<open>format(x, ".2f")\<close>\<close>
  "fmt2 (Finite q) =
     (let n = rhe (\<bar>q\<bar> * 100)
      in (if q < 0 then ''-'' else []) @ dec (n div 100) @ ''.''
         @ [digit_char (nat (n mod 100 div 10)), digit_char (nat (n mod 10))])"
| "fmt2 NegZero = ''-0.00''"
| "fmt2 PosInf = ''inf''"
| "fmt2 NegInf = ''-inf''"
| "fmt2 NaN = ''nan''"

subsection \<open>\<open>float(s)\<close> on a string\<close>

definition lower :: "char \<Rightarrow> char" where
  "lower c = (if in_range CHR ''A'' CHR ''Z'' c then char_of ((of_char c :: nat) + 32) else c)"

fun underscores_ok :: "char \<Rightarrow> string \<Rightarrow> bool" where
  \<comment> \<open>an underscore stands between two digits; the first argument is the character before\<close>
  "underscores_ok prev [] = (prev \<noteq> CHR ''_'')"
| "underscores_ok prev (c # cs) =
     ((if c = CHR ''_'' then is_digit prev else (prev = CHR ''_'' \<longrightarrow> is_digit c))
      \<and> underscores_ok c cs)"

definition take_sign :: "string \<Rightarrow> bool \<times> string" where
  "take_sign s = (case s of
       c # r \<Rightarrow> if c = CHR ''-'' then (True, r) else if c = CHR ''+'' then (False, r) else (False, s)
     | [] \<Rightarrow> (False, s))"

definition parse_inf_or_nan :: "string \<Rightarrow> pyfloat option" where
  "parse_inf_or_nan s =
     (let (neg, r) = take_sign s; w = map lower r
      in if w = ''inf'' \<or> w = ''infinity'' then Some (if neg then NegInf else PosInf)
         else if w = ''nan'' then Some NaN else None)"

definition parse_exponent :: "string \<Rightarrow> int \<times> string" where
  \<comment> \<open>an exponent part when one is there in full; otherwise nothing is consumed\<close>
  "parse_exponent s =
     (case s of
        c # r \<Rightarrow>
          if c = CHR ''e'' \<or> c = CHR ''E'' then
            (let (neg, r1) = take_sign r; ds = takeWhile is_digit r1
             in if ds = [] then (0, s)
                else ((if neg then - dec_val ds else dec_val ds), dropWhile is_digit r1))
          else (0, s)
      | [] \<Rightarrow> (0, s))"

definition parse_decimal :: "string \<Rightarrow> pyfloat option" where
  \<comment> \<open>sign, digits, an optional point and digits, an optional exponent, and nothing else\<close>
  "parse_decimal s =
     (let (neg, r0) = take_sign s;
          ip = takeWhile is_digit r0; r1 = dropWhile is_digit r0;
          (fp, r2) = (case r1 of
                        c # r \<Rightarrow> if c = CHR ''.'' then (takeWhile is_digit r, dropWhile is_digit r)
                                 else ([], r1)
                      | [] \<Rightarrow> ([], r1))
      in if ip = [] \<and> fp = [] then None
         else (let (ex, r3) = parse_exponent r2
               in if r3 \<noteq> [] then None
                  else Some (fl_sgn neg (of_int (dec_val (ip @ fp)) * pow10 (ex - int (length fp))))))"

definition is_float_space :: "char \<Rightarrow> bool" where
  \<comment> \<open>the characters \<open>float\<close> drops at both ends: the ASCII whitespace (not the
      separators 28 to 31, which \<open>str.strip\<close> drops) and the spaces 133 and 160\<close>
  "is_float_space c = ((of_char c :: nat) \<in> {9, 10, 11, 12, 13, 32, 133, 160})"

definition py_float :: "string \<Rightarrow> exc + pyfloat" where
  \<comment> \<open>\<open>float(s)\<close>: surrounding whitespace is dropped, underscores between digits are
      dropped, then the text is \<open>inf\<close>, \<open>infinity\<close>, \<open>nan\<close> or a decimal number\<close>
  "py_float s =
     (let t = rev (dropWhile is_float_space (rev (dropWhile is_float_space s)))
      in if \<not> underscores_ok (CHR 0x00) t then Inl ValueError
         else (let u = filter (\<lambda>c. c \<noteq> CHR ''_'') t
               in case parse_inf_or_nan u of
                    Some x \<Rightarrow> Inr x
                  | None \<Rightarrow> (case parse_decimal u of Some x \<Rightarrow> Inr x | None \<Rightarrow> Inl ValueError)))"

section \<open>Expense records\<close>

text \<open>
  An expense is a dictionary from field names to objects. The objects of the model are
  \<open>None\<close>, strings, floats and the empty list: the values the program stores and the
  sentinels it tests for.
\<close>

datatype pyval = VNone | VStr string | VFloat pyfloat | VEmptyList

type_synonym expense = "string \<rightharpoonup> pyval"

definition CSV_HEADERS :: "string list" where
  "CSV_HEADERS = [''date'', ''category'', ''amount'', ''description'']"

definition is_sentinel :: "pyval \<Rightarrow> bool" where
  \<comment> \<open>\<open>v in (None, "", [])\<close>\<close>
  "is_sentinel v = (v = VNone \<or> v = VStr [] \<or> v = VEmptyList)"

definition is_complete_expense :: "expense \<Rightarrow> bool" where
  "is_complete_expense ex =
     list_all (\<lambda>k. case ex k of None \<Rightarrow> False | Some v \<Rightarrow> \<not> is_sentinel v)
       [''date'', ''category'', ''amount'', ''description'']"

fun float_of :: "pyval \<Rightarrow> exc + pyfloat" where
  \<comment> \<open>\<open>float(v)\<close>\<close>
  "float_of (VFloat x) = Inr x"
| "float_of (VStr s) = py_float s"
| "float_of VNone = Inl TypeError"
| "float_of VEmptyList = Inl TypeError"

fun py_str :: "(pyfloat \<Rightarrow> string) \<Rightarrow> pyval \<Rightarrow> string" where
  \<comment> \<open>\<open>str(v)\<close>; the text of a float is the library's shortest representation, which the
      model takes as a parameter\<close>
  "py_str fstr (VStr s) = s"
| "py_str fstr (VFloat x) = fstr x"
| "py_str fstr VNone = ''None''"
| "py_str fstr VEmptyList = ''[]''"

fun format_2f :: "pyval \<Rightarrow> exc + string" where
  \<comment> \<open>\<open>format(v, ".2f")\<close>\<close>
  "format_2f (VFloat x) = Inr (fmt2 x)"
| "format_2f (VStr s) = Inl ValueError"
| "format_2f VNone = Inl TypeError"
| "format_2f VEmptyList = Inl TypeError"

definition lookup :: "expense \<Rightarrow> string \<Rightarrow> pyval" where
  \<comment> \<open>\<open>exp[k]\<close>, used where the key is known to be there\<close>
  "lookup ex k = (case ex k of Some v \<Rightarrow> v | None \<Rightarrow> VNone)"

definition make_expense :: "string \<Rightarrow> string \<Rightarrow> pyfloat \<Rightarrow> string \<Rightarrow> expense" where
  "make_expense date category amount description =
     [''date'' \<mapsto> VStr date, ''category'' \<mapsto> VStr category,
      ''amount'' \<mapsto> VFloat amount, ''description'' \<mapsto> VStr description]"

section \<open>The world of the program\<close>

text \<open>
  A file is its text; \<open>Broken text e\<close> is a file whose reading delivers the complete lines
  of \<open>text\<close> and then raises \<open>e\<close> (with an empty text, a file that cannot be opened for
  reading). \<open>wfail\<close> gives, for a path, the exception that opening it for writing raises,
  if any. Standard input is the list of the lines still to be read, standard output the
  list of the texts written so far.
\<close>

datatype fnode = File string | Broken string exc

record state =
  ledger :: "expense list"
  stdin :: "string list"
  stdout :: "string list"
  files :: "string \<rightharpoonup> fnode"
  wfail :: "string \<rightharpoonup> exc"

definition py_print :: "string \<Rightarrow> state \<Rightarrow> state" where
  "py_print s st = st\<lparr>stdout := stdout st @ [s @ [CHR 0x0A]]\<rparr>"

definition py_input :: "string \<Rightarrow> state \<Rightarrow> (exc + string) \<times> state" where
  \<comment> \<open>\<open>input(prompt)\<close>: end of input raises \<open>EOFError\<close>\<close>
  "py_input prompt st =
     (let st1 = st\<lparr>stdout := stdout st @ [prompt]\<rparr>
      in case stdin st of
           [] \<Rightarrow> (Inl EOFError, st1)
         | l # ls \<Rightarrow> (Inr l, st1\<lparr>stdin := ls\<rparr>))"

section \<open>The operations\<close>

definition add_expense :: "state \<Rightarrow> (exc + unit) \<times> state" where
  "add_expense st =
     (case py_input ''Enter date (YYYY-MM-DD): '' st of
        (Inl e, st1) \<Rightarrow> (Inl e, st1)
      | (Inr l1, st1) \<Rightarrow>
     (let date = strip l1
      in if \<not> is_valid_date date
         then (Inr (), py_print ''Invalid date format. Please use YYYY-MM-DD.'' st1)
         else
     (case py_input ''Enter category (e.g., Food, Travel): '' st1 of
        (Inl e, st2) \<Rightarrow> (Inl e, st2)
      | (Inr l2, st2) \<Rightarrow>
     (let category = strip l2
      in if category = []
         then (Inr (), py_print ''Category cannot be empty.'' st2)
         else
     (case py_input ''Enter amount spent: '' st2 of
        (Inl e, st3) \<Rightarrow> (Inl e, st3)
      | (Inr l3, st3) \<Rightarrow>
     (let amount_str = strip l3
      in case py_float amount_str of
           Inl ValueError \<Rightarrow> (Inr (), py_print ''Amount must be a valid number.'' st3)
         | Inl e \<Rightarrow> (Inl e, st3)
         | Inr amount \<Rightarrow>
             if f_le amount (Finite 0)
             then (Inr (), py_print ''Amount must be greater than 0.'' st3)
             else
     (case py_input ''Enter a brief description: '' st3 of
        (Inl e, st4) \<Rightarrow> (Inl e, st4)
      | (Inr l4, st4) \<Rightarrow>
     (let description = strip l4
      in if description = []
         then (Inr (), py_print ''Description cannot be empty.'' st4)
         else
           (let expense = make_expense date category (round2 amount) description;
                st5 = st4\<lparr>ledger := ledger st4 @ [expense]\<rparr>
            in (Inr (), py_print ''Expense added successfully.'' st5))))))))))"

definition expense_line :: "(pyfloat \<Rightarrow> string) \<Rightarrow> nat \<Rightarrow> expense \<Rightarrow> exc + string" where
  \<comment> \<open>the f-string of \<open>view_expenses\<close>\<close>
  "expense_line fstr idx ex =
     (case format_2f (lookup ex ''amount'') of
        Inl e \<Rightarrow> Inl e
      | Inr a \<Rightarrow> Inr (dec (int idx) @ ''. Date: '' @ py_str fstr (lookup ex ''date'')
                      @ '' | Category: '' @ py_str fstr (lookup ex ''category'')
                      @ '' | Amount: '' @ a
                      @ '' | Description: '' @ py_str fstr (lookup ex ''description'')))"

fun view_loop :: "(pyfloat \<Rightarrow> string) \<Rightarrow> nat \<Rightarrow> nat \<Rightarrow> expense list \<Rightarrow> state
    \<Rightarrow> (exc + nat) \<times> state" where
  \<comment> \<open>the loop over \<open>enumerate(expenses, start=1)\<close>; returns \<open>shown\<close>\<close>
  "view_loop fstr idx shown [] st = (Inr shown, st)"
| "view_loop fstr idx shown (ex # rest) st =
     (if \<not> is_complete_expense ex
      then view_loop fstr (idx + 1) shown rest
             (py_print (''Skipping incomplete entry at index '' @ dec (int idx) @ ''.'') st)
      else case expense_line fstr idx ex of
             Inl e \<Rightarrow> (Inl e, st)
           | Inr line \<Rightarrow> view_loop fstr (idx + 1) (shown + 1) rest (py_print line st))"

definition view_expenses :: "(pyfloat \<Rightarrow> string) \<Rightarrow> state \<Rightarrow> (exc + unit) \<times> state" where
  "view_expenses fstr st =
     (if ledger st = [] then (Inr (), py_print ''No expenses recorded yet.'' st)
      else case view_loop fstr 1 0 (ledger st)
                  (py_print (CHR 0x0A # ''--- All Expenses ---'') st) of
             (Inl e, st1) \<Rightarrow> (Inl e, st1)
           | (Inr shown, st1) \<Rightarrow>
               if shown = 0
               then (Inr (), py_print ''No complete expense entries to display.'' st1)
               else (Inr (), st1))"

fun total_loop :: "pyfloat \<Rightarrow> expense list \<Rightarrow> pyfloat" where
  "total_loop acc [] = acc"
| "total_loop acc (ex # rest) =
     (if is_complete_expense ex
      then (case float_of (lookup ex ''amount'') of
              Inr x \<Rightarrow> total_loop (fadd acc x) rest
            | Inl ValueError \<Rightarrow> total_loop acc rest
            | Inl TypeError \<Rightarrow> total_loop acc rest
            | Inl e \<Rightarrow> total_loop acc rest)
      else total_loop acc rest)"

definition total_expenses :: "state \<Rightarrow> pyfloat \<times> state" where
  "total_expenses st = (round2 (total_loop (Finite 0) (ledger st)), st)"

definition set_budget :: "state \<Rightarrow> (exc + pyfloat option) \<times> state" where
  "set_budget st =
     (case py_input ''Enter monthly budget amount: '' st of
        (Inl e, st1) \<Rightarrow> (Inl e, st1)
      | (Inr l, st1) \<Rightarrow>
          (case py_float (strip l) of
             Inl ValueError \<Rightarrow> (Inr None, py_print ''Budget must be a valid number.'' st1)
           | Inl e \<Rightarrow> (Inl e, st1)
           | Inr budget \<Rightarrow>
               if f_le budget (Finite 0)
               then (Inr None, py_print ''Budget must be greater than 0.'' st1)
               else (Inr (Some (round2 budget)), st1)))"

definition report_budget :: "pyfloat \<Rightarrow> state \<Rightarrow> (exc + pyfloat option) \<times> state" where
  \<comment> \<open>\<open>track_budget\<close> from the point where a budget is there\<close>
  "report_budget budget st =
     (let (spent, st1) = total_expenses st;
          st2 = py_print (''Total spent so far: '' @ fmt2 spent) st1;
          st3 = py_print (''Monthly budget: '' @ fmt2 budget) st2
      in if f_gt spent budget
         then (Inr (Some budget), py_print ''WARNING: You have exceeded your budget!'' st3)
         else (let remaining = round2 (fsub budget spent)
               in (Inr (Some budget),
                   py_print (''You have '' @ fmt2 remaining @ '' left for the month.'') st3)))"

definition track_budget :: "pyfloat option \<Rightarrow> state \<Rightarrow> (exc + pyfloat option) \<times> state" where
  "track_budget budget st =
     (case budget of
        None \<Rightarrow>
          (case set_budget (py_print ''No budget set yet.'' st) of
             (Inl e, st1) \<Rightarrow> (Inl e, st1)
           | (Inr None, st1) \<Rightarrow> (Inr None, st1)
           | (Inr (Some b), st1) \<Rightarrow> report_budget b st1)
      | Some b \<Rightarrow> report_budget b st)"

section \<open>The CSV library\<close>

text \<open>
  The writer and the reader of the \<open>csv\<close> module in its default dialect: delimiter \<open>,\<close>,
  quote character \<open>"\<close> doubled inside a quoted field, minimal quoting, line terminator
  CR LF, no escape character, not strict.
\<close>

abbreviation CR :: char where "CR \<equiv> CHR 0x0D"
abbreviation LF :: char where "LF \<equiv> CHR 0x0A"
abbreviation DQ :: char where "DQ \<equiv> CHR 0x22"

subsection \<open>Writing a row\<close>

definition needs_quote :: "char \<Rightarrow> bool" where
  "needs_quote c = (c = CHR '','' \<or> c = DQ \<or> c = CR \<or> c = LF)"

definition quote_field :: "string \<Rightarrow> string" where
  "quote_field f =
     (if list_ex needs_quote f
      then DQ # concat (map (\<lambda>c. if c = DQ then [DQ, DQ] else [c]) f) @ [DQ]
      else f)"

fun join_fields :: "string list \<Rightarrow> string" where
  "join_fields [] = []"
| "join_fields [f] = f"
| "join_fields (f # g # fs) = f @ CHR '','' # join_fields (g # fs)"

definition write_row :: "string list \<Rightarrow> string" where
  \<comment> \<open>a row of one empty field is written as a pair of quotes\<close>
  "write_row fs =
     (if fs = [[]] then [DQ, DQ] else join_fields (map quote_field fs)) @ [CR, LF]"

subsection \<open>Reading rows\<close>

datatype rstate =
  START_RECORD | START_FIELD | IN_FIELD | IN_QUOTED_FIELD | QUOTE_IN_QUOTED_FIELD | EAT_CRNL

record parser =
  pstate :: rstate
  pfield :: string
  pfields :: "string list"

datatype ev = Ch char | EOL

definition field_limit :: int where
  "field_limit = 131072"

definition parser0 :: parser where
  "parser0 = \<lparr>pstate = START_RECORD, pfield = [], pfields = []\<rparr>"

definition parse_add_char :: "rstate \<Rightarrow> parser \<Rightarrow> char \<Rightarrow> exc + parser" where
  \<comment> \<open>append a character to the field, then move to the given state\<close>
  "parse_add_char nxt p c =
     (if field_limit \<le> int (length (pfield p))
      then Inl (CsvError ''field larger than field limit (131072)'')
      else Inr (p\<lparr>pfield := pfield p @ [c], pstate := nxt\<rparr>))"

definition parse_save_field :: "rstate \<Rightarrow> parser \<Rightarrow> parser" where
  \<comment> \<open>close the field, then move to the given state\<close>
  "parse_save_field nxt p = p\<lparr>pfields := pfields p @ [pfield p], pfield := [], pstate := nxt\<rparr>"

definition start_field :: "parser \<Rightarrow> ev \<Rightarrow> exc + parser" where
  "start_field p e =
     (case e of
        EOL \<Rightarrow> Inr (parse_save_field START_RECORD p)
      | Ch c \<Rightarrow>
          if c = LF \<or> c = CR then Inr (parse_save_field EAT_CRNL p)
          else if c = DQ then Inr (p\<lparr>pstate := IN_QUOTED_FIELD\<rparr>)
          else if c = CHR '','' then Inr (parse_save_field START_FIELD p)
          else parse_add_char IN_FIELD p c)"

definition parse_process_char :: "parser \<Rightarrow> ev \<Rightarrow> exc + parser" where
  "parse_process_char p e =
     (case pstate p of
        START_RECORD \<Rightarrow>
          (case e of
             EOL \<Rightarrow> Inr p
           | Ch c \<Rightarrow> if c = LF \<or> c = CR then Inr (p\<lparr>pstate := EAT_CRNL\<rparr>)
                     else start_field p e)
      | START_FIELD \<Rightarrow> start_field p e
      | IN_FIELD \<Rightarrow>
          (case e of
             EOL \<Rightarrow> Inr (parse_save_field START_RECORD p)
           | Ch c \<Rightarrow> if c = LF \<or> c = CR then Inr (parse_save_field EAT_CRNL p)
                     else if c = CHR '','' then Inr (parse_save_field START_FIELD p)
                     else parse_add_char IN_FIELD p c)
      | IN_QUOTED_FIELD \<Rightarrow>
          (case e of
             EOL \<Rightarrow> Inr p
           | Ch c \<Rightarrow> if c = DQ then Inr (p\<lparr>pstate := QUOTE_IN_QUOTED_FIELD\<rparr>)
                     else parse_add_char IN_QUOTED_FIELD p c)
      | QUOTE_IN_QUOTED_FIELD \<Rightarrow>
          (case e of
             EOL \<Rightarrow> Inr (parse_save_field START_RECORD p)
           | Ch c \<Rightarrow> if c = DQ then parse_add_char IN_QUOTED_FIELD p c
                     else if c = CHR '','' then Inr (parse_save_field START_FIELD p)
                     else if c = LF \<or> c = CR then Inr (parse_save_field EAT_CRNL p)
                     else parse_add_char IN_FIELD p c)
      | EAT_CRNL \<Rightarrow>
          (case e of
             EOL \<Rightarrow> Inr (p\<lparr>pstate := START_RECORD\<rparr>)
           | Ch c \<Rightarrow> if c = LF \<or> c = CR then Inr p
                     else Inl (CsvError ''new-line character seen in unquoted field'')))"

fun feed :: "parser \<Rightarrow> ev list \<Rightarrow> exc + parser" where
  "feed p [] = Inr p"
| "feed p (e # es) = (case parse_process_char p e of Inl x \<Rightarrow> Inl x | Inr p' \<Rightarrow> feed p' es)"

definition feed_line :: "parser \<Rightarrow> string \<Rightarrow> exc + parser" where
  \<comment> \<open>the characters of one line, then the end-of-line mark\<close>
  "feed_line p l = feed p (map Ch l @ [EOL])"

fun reader_rows :: "exc option \<Rightarrow> parser \<Rightarrow> string list \<Rightarrow> string list list \<times> exc option" where
  \<comment> \<open>the rows the reader yields from the lines, and the exception that ends the iteration,
      if any; the first argument is the exception raised when the lines run out\<close>
  "reader_rows fin p [] =
     (case fin of
        Some e \<Rightarrow> ([], Some e)
      | None \<Rightarrow> if pfield p \<noteq> [] \<or> pstate p = IN_QUOTED_FIELD
                then ([pfields (parse_save_field START_RECORD p)], None)
                else ([], None))"
| "reader_rows fin p (l # ls) =
     (case feed_line p l of
        Inl e \<Rightarrow> ([], Some e)
      | Inr p' \<Rightarrow>
          if pstate p' = START_RECORD
          then (let (rs, e) = reader_rows fin parser0 ls in (pfields p' # rs, e))
          else reader_rows fin p' ls)"

fun split_lines :: "string \<Rightarrow> string \<Rightarrow> string list" where
  \<comment> \<open>the lines of a text opened with \<open>newline=""\<close>: a line ends after LF, after CR LF, or
      after a CR that no LF follows, and keeps its ending; the first argument is the line
      read so far\<close>
  "split_lines cur [] = (if cur = [] then [] else [cur])"
| "split_lines cur (c # cs) =
     (if c = LF then (cur @ [LF]) # split_lines [] cs
      else if c = CR then
        (case cs of
           [] \<Rightarrow> [cur @ [CR]]
         | d # ds \<Rightarrow> if d = LF then (cur @ [CR, LF]) # split_lines [] ds
                     else (cur @ [CR]) # split_lines [] cs)
      else split_lines (cur @ [c]) cs)"

definition ends_line :: "string \<Rightarrow> bool" where
  "ends_line l = (l \<noteq> [] \<and> (last l = LF \<or> last l = CR))"

definition file_rows :: "fnode \<Rightarrow> string list list \<times> exc option" where
  \<comment> \<open>\<open>csv.reader\<close> over an open file\<close>
  "file_rows node =
     (case node of
        File text \<Rightarrow> reader_rows None parser0 (split_lines [] text)
      | Broken text e \<Rightarrow> reader_rows (Some e) parser0 (filter ends_line (split_lines [] text)))"

subsection \<open>\<open>csv.DictReader\<close>\<close>

definition row_get :: "string list \<Rightarrow> string list \<Rightarrow> string \<Rightarrow> string option" where
  \<comment> \<open>\<open>row.get(k)\<close> for the dictionary built from the field names and a row: a later
      column of the same name wins, and a name beyond the row's length maps to \<open>None\<close>\<close>
  "row_get names row k =
     (if k \<in> set (drop (length row) names) then None else map_of (rev (zip names row)) k)"

definition dict_rows :: "string list list \<Rightarrow> (string \<Rightarrow> string option) list" where
  \<comment> \<open>the first row gives the field names; empty rows are skipped\<close>
  "dict_rows rows =
     (case rows of
        [] \<Rightarrow> []
      | names # rest \<Rightarrow> map (row_get names) (filter (\<lambda>r. r \<noteq> []) rest))"

section \<open>Saving and loading\<close>

definition cell :: "(pyfloat \<Rightarrow> string) \<Rightarrow> pyval \<Rightarrow> string" where
  \<comment> \<open>the text the writer gives a value: nothing for \<open>None\<close>, \<open>str(v)\<close> otherwise\<close>
  "cell fstr v = (case v of VNone \<Rightarrow> [] | _ \<Rightarrow> py_str fstr v)"

fun save_loop :: "(pyfloat \<Rightarrow> string) \<Rightarrow> expense list \<Rightarrow> string \<Rightarrow> exc option \<times> string" where
  \<comment> \<open>the loop of \<open>save_expenses\<close>; the last argument is the text written so far\<close>
  "save_loop fstr [] text = (None, text)"
| "save_loop fstr (ex # rest) text =
     (if \<not> is_complete_expense ex then save_loop fstr rest text
      else case float_of (lookup ex ''amount'') of
             Inl e \<Rightarrow> (Some e, text)
           | Inr x \<Rightarrow>
               save_loop fstr rest
                 (text @ write_row [cell fstr (lookup ex ''date''),
                                    cell fstr (lookup ex ''category''),
                                    fmt2 x,
                                    cell fstr (lookup ex ''description'')]))"

definition save_expenses :: "(pyfloat \<Rightarrow> string) \<Rightarrow> string \<Rightarrow> state \<Rightarrow> (exc + unit) \<times> state" where
  "save_expenses fstr filename st =
     (case wfail st filename of
        Some e \<Rightarrow> (Inl e, st)
      | None \<Rightarrow>
          (case save_loop fstr (ledger st) (write_row CSV_HEADERS) of
             (Some e, text) \<Rightarrow> (Inl e, st\<lparr>files := (files st)(filename \<mapsto> File text)\<rparr>)
           | (None, text) \<Rightarrow>
               (Inr (), py_print (''Expenses saved to '' @ filename)
                          (st\<lparr>files := (files st)(filename \<mapsto> File text)\<rparr>))))"

definition or_empty :: "string option \<Rightarrow> string" where
  \<comment> \<open>\<open>(v or "")\<close>\<close>
  "or_empty v = (case v of None \<Rightarrow> [] | Some s \<Rightarrow> s)"

definition load_row :: "(string \<Rightarrow> string option) \<Rightarrow> exc + expense option" where
  \<comment> \<open>the body of the loop of \<open>load_expenses\<close>: the record to append, if any\<close>
  "load_row row =
     (let date = strip (or_empty (row ''date''));
          category = strip (or_empty (row ''category''));
          amount_str = strip (or_empty (row ''amount''));
          description = strip (or_empty (row ''description''))
      in if \<not> (date \<noteq> [] \<and> category \<noteq> [] \<and> amount_str \<noteq> [] \<and> description \<noteq> [])
         then Inr None
         else if \<not> is_valid_date date then Inr None
         else case py_float amount_str of
                Inl ValueError \<Rightarrow> Inr None
              | Inl e \<Rightarrow> Inl e
              | Inr amount \<Rightarrow> Inr (Some (make_expense date category (round2 amount) description)))"

fun load_loop :: "(string \<Rightarrow> string option) list \<Rightarrow> expense list \<times> exc option" where
  "load_loop [] = ([], None)"
| "load_loop (row # rows) =
     (case load_row row of
        Inl e \<Rightarrow> ([], Some e)
      | Inr None \<Rightarrow> load_loop rows
      | Inr (Some ex) \<Rightarrow> (let (exs, err) = load_loop rows in (ex # exs, err)))"

definition load_file :: "fnode \<Rightarrow> expense list \<times> exc option" where
  \<comment> \<open>the \<open>try\<close> block of \<open>load_expenses\<close>: the records appended, and the exception that
      left the block, if any\<close>
  "load_file node =
     (let (rows, rerr) = file_rows node;
          (exs, lerr) = load_loop (dict_rows rows)
      in (exs, case lerr of Some e \<Rightarrow> Some e | None \<Rightarrow> rerr))"

definition load_expenses :: "string \<Rightarrow> state \<Rightarrow> (exc + expense list) \<times> state" where
  "load_expenses filename st =
     (case files st filename of
        None \<Rightarrow> (Inr [], st)
      | Some node \<Rightarrow>
          (case load_file node of
             (exs, None) \<Rightarrow> (Inr exs, st)
           | (exs, Some e) \<Rightarrow>
               (Inr exs, py_print (''Failed to load expenses: '' @ exc_str e) st)))"

section \<open>The menu loop\<close>

definition show_menu :: "state \<Rightarrow> state" where
  "show_menu st =
     py_print ''5. Exit''
       (py_print ''4. Save expenses''
         (py_print ''3. Track budget''
           (py_print ''2. View expenses''
             (py_print ''1. Add expense''
               (py_print (LF # ''=== Personal Expense Tracker ==='') st)))))"

definition menu_choice :: "(pyfloat \<Rightarrow> string) \<Rightarrow> string \<Rightarrow> pyfloat option \<Rightarrow> state
    \<Rightarrow> (exc + (pyfloat option) option) \<times> state" where
  \<comment> \<open>one pass of the body of the loop after the choice is read: the budget to go on
      with, or nothing after \<open>break\<close>\<close>
  "menu_choice fstr choice budget st =
     (if choice = ''1'' then
        (case add_expense st of
           (Inl e, st1) \<Rightarrow> (Inl e, st1) | (Inr _, st1) \<Rightarrow> (Inr (Some budget), st1))
      else if choice = ''2'' then
        (case view_expenses fstr st of
           (Inl e, st1) \<Rightarrow> (Inl e, st1) | (Inr _, st1) \<Rightarrow> (Inr (Some budget), st1))
      else if choice = ''3'' then
        (case track_budget budget st of
           (Inl e, st1) \<Rightarrow> (Inl e, st1) | (Inr b, st1) \<Rightarrow> (Inr (Some b), st1))
      else if choice = ''4'' then
        (case save_expenses fstr ''expenses.csv'' st of
           (Inl e, st1) \<Rightarrow> (Inl e, st1) | (Inr _, st1) \<Rightarrow> (Inr (Some budget), st1))
      else if choice = ''5'' then
        (case save_expenses fstr ''expenses.csv'' st of
           (Inl e, st1) \<Rightarrow> (Inl e, st1)
         | (Inr _, st1) \<Rightarrow> (Inr None, py_print ''Goodbye!'' st1))
      else (Inr (Some budget),
            py_print ''Invalid option. Please enter a number from 1 to 5.'' st))"

definition menu_pass :: "(pyfloat \<Rightarrow> string) \<Rightarrow> pyfloat option \<Rightarrow> state
    \<Rightarrow> (exc + (pyfloat option) option) \<times> state" where
  \<comment> \<open>one pass of the loop: the menu, the choice, the operation\<close>
  "menu_pass fstr budget st =
     (case py_input ''Choose an option (1-5): '' (show_menu st) of
        (Inl e, st1) \<Rightarrow> (Inl e, st1)
      | (Inr l, st1) \<Rightarrow> menu_choice fstr (strip l) budget st1)"

lemma stdin_py_print [simp]: "stdin (py_print s st) = stdin st"
  by (simp add: py_print_def)

lemma ledger_py_print [simp]: "ledger (py_print s st) = ledger st"
  by (simp add: py_print_def)

lemma files_py_print [simp]: "files (py_print s st) = files st"
  by (simp add: py_print_def)

lemma wfail_py_print [simp]: "wfail (py_print s st) = wfail st"
  by (simp add: py_print_def)

lemma stdout_py_print [simp]: "stdout (py_print s st) = stdout st @ [s @ [LF]]"
  by (simp add: py_print_def)

lemma py_input_Inr:
  "py_input p st = (Inr l, st1) \<Longrightarrow>
     stdin st = l # stdin st1 \<and> ledger st1 = ledger st \<and> files st1 = files st
     \<and> wfail st1 = wfail st \<and> stdout st1 = stdout st @ [p]"
  by (auto simp: py_input_def Let_def split: list.splits)

lemma py_input_Inl:
  "py_input p st = (Inl e, st1) \<Longrightarrow>
     e = EOFError \<and> stdin st = [] \<and> stdin st1 = [] \<and> ledger st1 = ledger st
     \<and> files st1 = files st \<and> wfail st1 = wfail st \<and> stdout st1 = stdout st @ [p]"
  by (auto simp: py_input_def Let_def split: list.splits)

lemma py_input_stdin_le:
  "py_input p st = (r, st1) \<Longrightarrow> length (stdin st1) \<le> length (stdin st)"
  by (cases r) (auto dest: py_input_Inr py_input_Inl)

lemma add_expense_stdin_le:
  "add_expense st = (r, st') \<Longrightarrow> length (stdin st') \<le> length (stdin st)"
  unfolding add_expense_def Let_def
  by (auto split: prod.splits sum.splits if_splits exc.splits
           dest!: py_input_Inr py_input_Inl)

lemma view_loop_stdin: "view_loop fstr i n exs st = (r, st') \<Longrightarrow> stdin st' = stdin st"
  by (induction fstr i n exs st rule: view_loop.induct)
     (auto split: if_splits sum.splits)

lemma view_expenses_stdin: "view_expenses fstr st = (r, st') \<Longrightarrow> stdin st' = stdin st"
  unfolding view_expenses_def
  by (auto split: if_splits prod.splits sum.splits dest!: view_loop_stdin)

lemma set_budget_stdin_le:
  "set_budget st = (r, st') \<Longrightarrow> length (stdin st') \<le> length (stdin st)"
  unfolding set_budget_def
  by (auto split: prod.splits sum.splits if_splits exc.splits
           dest!: py_input_Inr py_input_Inl)

lemma report_budget_stdin: "report_budget b st = (r, st') \<Longrightarrow> stdin st' = stdin st"
  unfolding report_budget_def total_expenses_def Let_def
  by (auto split: if_splits)

lemma track_budget_stdin_le:
  "track_budget b st = (r, st') \<Longrightarrow> length (stdin st') \<le> length (stdin st)"
  unfolding track_budget_def
  by (auto split: option.splits prod.splits sum.splits
           dest!: set_budget_stdin_le report_budget_stdin)

lemma save_expenses_stdin: "save_expenses fstr f st = (r, st') \<Longrightarrow> stdin st' = stdin st"
  unfolding save_expenses_def
  by (auto split: option.splits prod.splits)

lemma menu_choice_stdin_le:
  "menu_choice fstr c b st = (r, st') \<Longrightarrow> length (stdin st') \<le> length (stdin st)"
  unfolding menu_choice_def
  by (auto split: if_splits prod.splits sum.splits
           dest: add_expense_stdin_le view_expenses_stdin track_budget_stdin_le
                 save_expenses_stdin)

lemma menu_pass_stdin_less:
  "menu_pass fstr b st = (Inr x, st') \<Longrightarrow> length (stdin st') < length (stdin st)"
  unfolding menu_pass_def show_menu_def
  by (auto split: prod.splits sum.splits dest!: py_input_Inr menu_choice_stdin_le)

function main_loop :: "(pyfloat \<Rightarrow> string) \<Rightarrow> pyfloat option \<Rightarrow> state \<Rightarrow> (exc + unit) \<times> state" where
  \<comment> \<open>\<open>while True\<close>: it ends at \<open>break\<close> or at an exception, and standard input is finite\<close>
  "main_loop fstr budget st =
     (case menu_pass fstr budget st of
        (Inl e, st1) \<Rightarrow> (Inl e, st1)
      | (Inr None, st1) \<Rightarrow> (Inr (), st1)
      | (Inr (Some b), st1) \<Rightarrow> main_loop fstr b st1)"
  by pat_completeness auto
termination
  by (relation "measure (\<lambda>(fstr, budget, st). length (stdin st))")
     (auto dest: menu_pass_stdin_less [OF sym])

declare main_loop.simps [simp del]

definition main :: "(pyfloat \<Rightarrow> string) \<Rightarrow> state \<Rightarrow> (exc + unit) \<times> state" where
  "main fstr st =
     (case load_expenses ''expenses.csv'' st of
        (Inl e, st1) \<Rightarrow> (Inl e, st1)
      | (Inr expenses, st1) \<Rightarrow>
          (let st2 = st1\<lparr>ledger := expenses\<rparr>;
               st3 = (if expenses \<noteq> []
                      then py_print (''Loaded '' @ dec (int (length expenses))
                                     @ '' expense(s) from expenses.csv'') st2
                      else st2)
           in main_loop fstr None st3))"

section \<open>Which strings \<open>is_valid_date\<close> accepts\<close>

definition pad4 :: "nat \<Rightarrow> string" where
  \<comment> \<open>a year written with four digits\<close>
  "pad4 y = [digit_char (y div 1000), digit_char (y div 100 mod 10),
             digit_char (y div 10 mod 10), digit_char (y mod 10)]"

definition month_texts :: "nat \<Rightarrow> string list" where
  \<comment> \<open>the ways a month may be written: plain, or padded with a zero to two digits\<close>
  "month_texts m =
     (if m < 10 then [[digit_char m], [CHR ''0'', digit_char m]]
      else [[digit_char (m div 10), digit_char (m mod 10)]])"

definition day_texts :: "nat \<Rightarrow> string list" where
  \<comment> \<open>the ways a day may be written: plain, or padded with a zero or a space\<close>
  "day_texts d =
     (if d < 10 then [[digit_char d], [CHR ''0'', digit_char d], [CHR '' '', digit_char d]]
      else [[digit_char (d div 10), digit_char (d mod 10)]])"

definition accepted_texts :: "nat \<Rightarrow> nat \<Rightarrow> nat \<Rightarrow> string list" where
  \<comment> \<open>every text that stands for the date: year, hyphen, month, hyphen, day\<close>
  "accepted_texts y m d =
     concat (map (\<lambda>ms. map (\<lambda>ds. pad4 y @ CHR ''-'' # ms @ CHR ''-'' # ds) (day_texts d))
                 (month_texts m))"

definition real_date :: "nat \<Rightarrow> nat \<Rightarrow> nat \<Rightarrow> bool" where
  \<comment> \<open>a date of the calendar, years 1 to 9999\<close>
  "real_date y m d = (1 \<le> y \<and> y \<le> 9999 \<and> 1 \<le> m \<and> m \<le> 12 \<and> 1 \<le> d \<and> d \<le> days_in_month y m)"

lemma digit_char_val: "is_digit c \<Longrightarrow> digit_char (digit_val c) = c"
  by (simp add: is_digit_def digit_char_def digit_val_def)

lemma digit_val_char: "k < 10 \<Longrightarrow> digit_val (digit_char k) = k"
  by (simp add: digit_char_def digit_val_def)

lemma is_digit_char: "k < 10 \<Longrightarrow> is_digit (digit_char k)"
  by (simp add: digit_char_def is_digit_def)

lemma digit_val_less: "is_digit c \<Longrightarrow> digit_val c < 10"
  by (auto simp add: is_digit_def digit_val_def)

lemma horner_step:
  fixes x d :: nat
  assumes "d < 10"
  shows "(x * 10 + d) div 10 = x" "(x * 10 + d) mod 10 = d"
  using assms by simp_all

lemma horner4:
  fixes a b c d :: nat
  shows "1000 * a + 100 * b + 10 * c + d = ((a * 10 + b) * 10 + c) * 10 + d"
  by simp

lemma digits4:
  fixes a b c d :: nat
  assumes "a < 10" "b < 10" "c < 10" "d < 10"
  defines "n \<equiv> 1000 * a + 100 * b + 10 * c + d"
  shows "n div 1000 = a \<and> n div 100 mod 10 = b \<and> n div 10 mod 10 = c \<and> n mod 10 = d \<and> n \<le> 9999"
proof -
  have n: "n = ((a * 10 + b) * 10 + c) * 10 + d" unfolding n_def by (rule horner4)
  have dv: "n div 100 = n div 10 div 10" "n div 1000 = n div 10 div 10 div 10"
    by (simp_all add: div_mult2_eq)
  have 1: "n div 10 = (a * 10 + b) * 10 + c" "n mod 10 = d"
    unfolding n using assms(4) by (rule horner_step)+
  have 2: "((a * 10 + b) * 10 + c) div 10 = a * 10 + b" "((a * 10 + b) * 10 + c) mod 10 = c"
    using assms(3) by (rule horner_step)+
  have 3: "(a * 10 + b) div 10 = a" "(a * 10 + b) mod 10 = b"
    using assms(2) by (rule horner_step)+
  have "n \<le> 9999" using assms by (simp add: n_def)
  then show ?thesis
    unfolding dv 1 2 3 by simp
qed

lemma digits4_back:
  fixes y :: nat
  shows "1000 * (y div 1000) + 100 * (y div 100 mod 10) + 10 * (y div 10 mod 10) + y mod 10 = y"
proof -
  have a: "y div 100 = (y div 10) div 10" "y div 1000 = ((y div 10) div 10) div 10"
    by (simp_all add: div_mult2_eq)
  have s: "\<And>z::nat. z div 10 * 10 + z mod 10 = z" by simp
  show ?thesis unfolding a horner4 s ..
qed

lemma re_Y_sound:
  assumes "(y, r) \<in> set (re_Y s)"
  shows "s = pad4 y @ r \<and> y \<le> 9999"
proof -
  from assms obtain a b c d where s: "s = a # b # c # d # r"
    and dg: "is_digit a" "is_digit b" "is_digit c" "is_digit d"
    and y: "y = 1000 * digit_val a + 100 * digit_val b + 10 * digit_val c + digit_val d"
    by (cases s rule: re_Y.cases) (auto split: if_splits)
  note lt = dg [THEN digit_val_less]
  from digits4 [OF lt] show ?thesis
    unfolding y [symmetric] using dg by (simp add: s pad4_def digit_char_val)
qed

lemma re_Y_pad4:
  assumes "y \<le> 9999"
  shows "re_Y (pad4 y @ r) = [(y, r)]"
proof -
  have "y div 1000 < 10" using assms by (simp add: less_mult_imp_div_less)
  then show ?thesis
    by (simp add: pad4_def is_digit_char digit_val_char digits4_back)
qed

lemma in_range_19: "in_range CHR ''1'' CHR ''9'' c \<longleftrightarrow> is_digit c \<and> 1 \<le> digit_val c"
  by (auto simp: in_range_def is_digit_def digit_val_def)

lemma in_range_02: "in_range CHR ''0'' CHR ''2'' c \<longleftrightarrow> is_digit c \<and> digit_val c \<le> 2"
  by (auto simp: in_range_def is_digit_def digit_val_def)

lemma in_range_01: "in_range CHR ''0'' CHR ''1'' c \<longleftrightarrow> is_digit c \<and> digit_val c \<le> 1"
  by (auto simp: in_range_def is_digit_def digit_val_def)

lemma in_range_12: "in_range CHR ''1'' CHR ''2'' c \<longleftrightarrow> is_digit c \<and> 1 \<le> digit_val c \<and> digit_val c \<le> 2"
  by (auto simp: in_range_def is_digit_def digit_val_def)

lemma digit_consts [simp]:
  "is_digit CHR ''0''" "is_digit CHR ''1''" "is_digit CHR ''3''" "\<not> is_digit CHR '' ''"
  "digit_val CHR ''0'' = 0" "digit_val CHR ''1'' = 1" "digit_val CHR ''3'' = 3"
  "digit_val CHR '' '' = 0" "\<not> is_digit CHR ''-''"
  "digit_char 0 = CHR ''0''" "digit_char 1 = CHR ''1''" "digit_char (Suc 0) = CHR ''1''"
  "digit_char 3 = CHR ''3''"
  by (simp_all add: is_digit_def digit_val_def digit_char_def char_of_eq_iff)

lemma two_digit_arith:
  fixes a b :: nat
  assumes "b < 10"
  shows "(10 * a + b) div 10 = a" "(10 * a + b) mod 10 = b"
  using assms by simp_all

lemma re_two_mem:
  "(k, r) \<in> set (re_two p q s) \<longleftrightarrow>
     (\<exists>a b. s = a # b # r \<and> p a \<and> q b \<and> k = (if is_digit a then 10 * digit_val a else 0) + digit_val b)"
  by (cases "(p, q, s)" rule: re_two.cases) auto

lemma re_one_mem:
  "(k, r) \<in> set (re_one p s) \<longleftrightarrow> (\<exists>a. s = a # r \<and> p a \<and> k = digit_val a)"
  by (cases "(p, s)" rule: re_one.cases) auto

lemma re_m_sound:
  assumes "(m, r) \<in> set (re_m s)"
  shows "\<exists>ms \<in> set (month_texts m). s = ms @ r"
  using assms unfolding re_m_def
  by (auto simp: re_two_mem re_one_mem in_range_19 in_range_02 month_texts_def
                 digit_char_val two_digit_arith [where a = 1, simplified] dest: digit_val_less)

lemma re_d_sound:
  assumes "(d, r) \<in> set (re_d s)"
  shows "\<exists>ds \<in> set (day_texts d). s = ds @ r"
  using assms unfolding re_d_def
  by (auto simp: re_two_mem re_one_mem in_range_19 in_range_01 in_range_12 day_texts_def
                 digit_char_val two_digit_arith two_digit_arith [where a = 3, simplified]
                 digit_val_less
           dest: digit_val_less)

lemma re_ymd_sound:
  assumes "(y, m, d, r) \<in> set (re_ymd s)"
  shows "\<exists>ms \<in> set (month_texts m). \<exists>ds \<in> set (day_texts d).
           s = pad4 y @ CHR ''-'' # ms @ CHR ''-'' # ds @ r \<and> y \<le> 9999"
proof -
  from assms obtain r0 r1 r2 r3 where
    Y: "(y, r0) \<in> set (re_Y s)" and l1: "r1 \<in> set (re_lit CHR ''-'' r0)"
    and M: "(m, r2) \<in> set (re_m r1)" and l2: "r3 \<in> set (re_lit CHR ''-'' r2)"
    and D: "(d, r) \<in> set (re_d r3)"
    unfolding re_ymd_def by auto
  have r0: "r0 = CHR ''-'' # r1" using l1 by (cases r0) (auto split: if_splits)
  have r2: "r2 = CHR ''-'' # r3" using l2 by (cases r2) (auto split: if_splits)
  from re_m_sound [OF M] obtain ms where ms: "ms \<in> set (month_texts m)" "r1 = ms @ r2" by blast
  from re_d_sound [OF D] obtain ds where ds: "ds \<in> set (day_texts d)" "r3 = ds @ r" by blast
  from re_Y_sound [OF Y] have "s = pad4 y @ r0" "y \<le> 9999" by simp_all
  then show ?thesis using ms ds r0 r2 by auto
qed

lemma digit_char_eq: "k < 10 \<Longrightarrow> digit_char k = c \<longleftrightarrow> is_digit c \<and> digit_val c = k"
  using digit_char_val digit_val_char is_digit_char by blast

lemma digit_char_consts:
  assumes "k < 10"
  shows "CHR ''0'' = digit_char k \<longleftrightarrow> k = 0" "CHR ''1'' = digit_char k \<longleftrightarrow> k = 1"
    "CHR ''3'' = digit_char k \<longleftrightarrow> k = 3" "CHR '' '' \<noteq> digit_char k" "CHR ''-'' \<noteq> digit_char k"
  using digit_char_eq [OF assms, of "CHR ''0''"] digit_char_eq [OF assms, of "CHR ''1''"]
    digit_char_eq [OF assms, of "CHR ''3''"] digit_char_eq [OF assms, of "CHR '' ''"]
    digit_char_eq [OF assms, of "CHR ''-''"]
  by auto

lemma re_m_first:
  assumes "1 \<le> m" "m \<le> 12" "ms \<in> set (month_texts m)"
  shows "\<exists>xs. re_m (ms @ CHR ''-'' # r) = (m, CHR ''-'' # r) # xs
              \<and> (\<forall>(k, r') \<in> set xs. re_lit CHR ''-'' r' = [])"
proof (cases "m < 10")
  case True
  then show ?thesis
    using assms
    by (auto simp: month_texts_def re_m_def in_range_19 in_range_02 is_digit_char
                   digit_val_char digit_char_eq)
next
  case False
  define b where "b = m mod 10"
  have m: "m = 10 + b" "b \<le> 2" "m div 10 = 1"
    using False assms(2) unfolding b_def by presburger+
  have ms: "ms = [CHR ''1'', digit_char b]"
    using assms(3) False by (simp add: month_texts_def m(3) b_def)
  have b: "b < 10" using m by simp
  show ?thesis
    unfolding ms using b m(2)
    by (auto simp: re_m_def in_range_19 in_range_02 is_digit_char digit_val_char
                   digit_char_eq m(1))
qed

lemma re_d_first:
  assumes "1 \<le> d" "d \<le> 31" "ds \<in> set (day_texts d)"
  shows "\<exists>xs. re_d ds = (d, []) # xs"
proof (cases "d < 10")
  case True
  then show ?thesis
    using assms
    by (auto simp: day_texts_def re_d_def in_range_19 in_range_01 in_range_12 is_digit_char
                   digit_val_char digit_char_eq)
next
  case False
  define a b where "a = d div 10" and "b = d mod 10"
  have d: "d = 10 * a + b" "b < 10" "1 \<le> a" "a \<le> 3" "a = 3 \<longrightarrow> b \<le> 1"
    using False assms(2) unfolding a_def b_def by presburger+
  have ds: "ds = [digit_char a, digit_char b]"
    using assms(3) False by (simp add: day_texts_def a_def b_def)
  have a: "a < 10" using d by simp
  show ?thesis
    unfolding ds using a d(2-)
    by (auto simp: re_d_def in_range_19 in_range_01 in_range_12 is_digit_char digit_val_char
                   digit_char_eq digit_char_consts d(1))
qed

lemma days_in_month_le: "days_in_month y m \<le> 31"
  by (simp add: days_in_month_def)

lemma re_ymd_first:
  assumes "y \<le> 9999" "1 \<le> m" "m \<le> 12" "1 \<le> d" "d \<le> 31"
    and "ms \<in> set (month_texts m)" "ds \<in> set (day_texts d)"
  shows "\<exists>xs. re_ymd (pad4 y @ CHR ''-'' # ms @ CHR ''-'' # ds) = (y, m, d, []) # xs"
proof -
  from re_m_first [OF assms(2,3,6)] obtain xs where
    M: "re_m (ms @ CHR ''-'' # ds) = (m, CHR ''-'' # ds) # xs" by blast
  from re_d_first [OF assms(4,5,7)] obtain ys where D: "re_d ds = (d, []) # ys" by blast
  show ?thesis
    by (simp add: re_ymd_def re_Y_pad4 [OF assms(1)] M D)
qed

fun strict_ymd :: "string \<Rightarrow> (nat \<times> nat \<times> nat) option" where
  \<comment> \<open>the specification's strict format \<open>YYYY-MM-DD\<close>: four digits, a hyphen, two digits,
      a hyphen, two digits, and the numbers they denote\<close>
  "strict_ymd [a, b, c, d, h1, e, f, h2, g, h] =
     (if is_digit a \<and> is_digit b \<and> is_digit c \<and> is_digit d \<and> h1 = CHR ''-''
         \<and> is_digit e \<and> is_digit f \<and> h2 = CHR ''-'' \<and> is_digit g \<and> is_digit h
      then Some (1000 * digit_val a + 100 * digit_val b + 10 * digit_val c + digit_val d,
                 10 * digit_val e + digit_val f, 10 * digit_val g + digit_val h)
      else None)"
| "strict_ymd _ = None"

definition spec_valid_date :: "string \<Rightarrow> bool" where
  \<comment> \<open>the specification's words: the string matches the strict format and denotes a real
      calendar date\<close>
  "spec_valid_date s = (case strict_ymd s of Some (y, m, d) \<Rightarrow> real_date y m d | None \<Rightarrow> False)"

lemma is_valid_date_accepted:
  "is_valid_date s \<longleftrightarrow> (\<exists>y m d. real_date y m d \<and> s \<in> set (accepted_texts y m d))"
proof
  assume "is_valid_date s"
  then obtain y m d xs where hd: "re_ymd s = (y, m, d, []) # xs"
    and mk: "make_date y m d = Inr (y, m, d)"
    unfolding is_valid_date_def strptime_ymd_def make_date_def
    by (auto split: list.splits if_splits sum.splits exc.splits)
  then have "(y, m, d, []) \<in> set (re_ymd s)" by simp
  from re_ymd_sound [OF this] have "s \<in> set (accepted_texts y m d)"
    by (auto simp: accepted_texts_def)
  moreover have "real_date y m d"
    using mk by (auto simp: make_date_def real_date_def split: if_splits)
  ultimately show "\<exists>y m d. real_date y m d \<and> s \<in> set (accepted_texts y m d)" by blast
next
  assume "\<exists>y m d. real_date y m d \<and> s \<in> set (accepted_texts y m d)"
  then obtain y m d ms ds where rd: "real_date y m d"
    and ms: "ms \<in> set (month_texts m)" and ds: "ds \<in> set (day_texts d)"
    and s: "s = pad4 y @ CHR ''-'' # ms @ CHR ''-'' # ds"
    by (auto simp: accepted_texts_def)
  have d31: "d \<le> 31" using rd days_in_month_le [of y m] by (simp add: real_date_def)
  from rd have r: "y \<le> 9999" "1 \<le> m" "m \<le> 12" "1 \<le> d" by (simp_all add: real_date_def)
  from re_ymd_first [OF r d31 ms ds] obtain xs where "re_ymd s = (y, m, d, []) # xs"
    unfolding s by blast
  then show "is_valid_date s"
    using rd by (simp add: is_valid_date_def strptime_ymd_def make_date_def real_date_def)
qed

lemma two_digit_text:
  assumes "is_digit e" "is_digit f" "1 \<le> 10 * digit_val e + digit_val f"
  shows "[e, f] \<in> set (month_texts (10 * digit_val e + digit_val f))"
    and "[e, f] \<in> set (day_texts (10 * digit_val e + digit_val f))"
proof -
  have lt: "digit_val e < 10" "digit_val f < 10" using assms by (simp_all add: digit_val_less)
  have dm: "(10 * digit_val e + digit_val f) div 10 = digit_val e"
    "(10 * digit_val e + digit_val f) mod 10 = digit_val f"
    using lt by (simp_all add: two_digit_arith)
  show "[e, f] \<in> set (month_texts (10 * digit_val e + digit_val f))"
  proof (cases "digit_val e = 0")
    case True
    then have "e = CHR ''0''" using digit_char_val [OF assms(1)] by simp
    then show ?thesis using True lt assms(2) by (simp add: month_texts_def digit_char_val)
  next
    case False
    then show ?thesis using assms(1,2) lt by (simp add: month_texts_def digit_char_val)
  qed
  show "[e, f] \<in> set (day_texts (10 * digit_val e + digit_val f))"
  proof (cases "digit_val e = 0")
    case True
    then have "e = CHR ''0''" using digit_char_val [OF assms(1)] by simp
    then show ?thesis using True lt assms(2) by (simp add: day_texts_def digit_char_val)
  next
    case False
    then show ?thesis using assms(1,2) lt by (simp add: day_texts_def digit_char_val)
  qed
qed

lemma accepted_textsI:
  assumes "ms \<in> set (month_texts m)" "ds \<in> set (day_texts d)"
  shows "pad4 y @ CHR ''-'' # ms @ CHR ''-'' # ds \<in> set (accepted_texts y m d)"
  using assms by (auto simp: accepted_texts_def)

lemma digit_char_lits:
  "digit_char 0 = CHR ''0''" "digit_char 1 = CHR ''1''" "digit_char 2 = CHR ''2''"
  "digit_char 3 = CHR ''3''" "digit_char 4 = CHR ''4''" "digit_char 5 = CHR ''5''"
  "digit_char 6 = CHR ''6''" "digit_char 7 = CHR ''7''" "digit_char 8 = CHR ''8''"
  "digit_char 9 = CHR ''9''"
  by (simp_all add: digit_char_def char_of_eq_iff)

lemma strict_ymd_accepted:
  assumes "strict_ymd s = Some (y, m, d)" "1 \<le> m" "1 \<le> d"
  shows "s \<in> set (accepted_texts y m d)"
proof -
  from assms(1) obtain a b c d' e f g h where s: "s = [a, b, c, d', CHR ''-'', e, f, CHR ''-'', g, h]"
    and dg: "is_digit a" "is_digit b" "is_digit c" "is_digit d'"
    and dg2: "is_digit e" "is_digit f" "is_digit g" "is_digit h"
    and y: "y = 1000 * digit_val a + 100 * digit_val b + 10 * digit_val c + digit_val d'"
    and m: "m = 10 * digit_val e + digit_val f" and d: "d = 10 * digit_val g + digit_val h"
    by (cases s rule: strict_ymd.cases) (auto split: if_splits)
  have p: "pad4 y = [a, b, c, d']"
    using digits4 [OF dg [THEN digit_val_less]] dg unfolding y [symmetric]
    by (simp add: pad4_def digit_char_val)
  have "[e, f] \<in> set (month_texts m)" "[g, h] \<in> set (day_texts d)"
    using two_digit_text dg2 assms(2,3) unfolding m d by blast+
  from accepted_textsI [OF this, of y] show ?thesis
    by (simp add: p s)
qed

text \<open>
  C2, as the specification states it: \<open>is_valid_date\<close> is true exactly on the strings in the
  strict format \<open>YYYY-MM-DD\<close> that denote a real calendar date. The code accepts more: the
  month and the day need not have two digits.
\<close>

theorem is_valid_date_not_strict:
  "\<not> (is_valid_date ''2024-1-5'' \<longleftrightarrow> spec_valid_date ''2024-1-5'')"
  by (simp add: is_valid_date_def strptime_ymd_def re_ymd_def re_m_def re_d_def make_date_def
        is_digit_def digit_val_def in_range_def days_in_month_def is_leap_def
        spec_valid_date_def)

text \<open>
  C2, amended, for the strings of code points below 256 (the strings of this theory; on
  them the digits of \<open>\d\<close> are the ASCII digits): \<open>is_valid_date s\<close> is true exactly when
  \<open>s\<close> is a year of four digits, a hyphen, a month, a hyphen and a day, where the month is
  written with one digit or with two, the day with one digit, with two, or as a space and a
  digit, and the three numbers are a date of the calendar with a year from 1 to 9999. Every
  string the specification's strict format accepts is among them. Strings with a code
  point from 256 on, among them the decimal digits of other scripts, which \<open>\d\<close> matches
  too, are outside the statement.
\<close>

theorem is_valid_date_iff:
  "(is_valid_date s \<longleftrightarrow> (\<exists>y m d. real_date y m d \<and> s \<in> set (accepted_texts y m d)))
   \<and> (spec_valid_date s \<longrightarrow> is_valid_date s)"
proof
  show "is_valid_date s \<longleftrightarrow> (\<exists>y m d. real_date y m d \<and> s \<in> set (accepted_texts y m d))"
    by (rule is_valid_date_accepted)
  show "spec_valid_date s \<longrightarrow> is_valid_date s"
  proof
    assume "spec_valid_date s"
    then obtain y m d where st: "strict_ymd s = Some (y, m, d)" and rd: "real_date y m d"
      by (auto simp: spec_valid_date_def split: option.splits)
    from rd have "1 \<le> m" "1 \<le> d" by (simp_all add: real_date_def)
    from strict_ymd_accepted [OF st this] rd show "is_valid_date s"
      unfolding is_valid_date_accepted by blast
  qed
qed

theorem is_valid_date_iff_witness:
  "spec_valid_date ''2024-02-29'' \<and> is_valid_date ''2024-02-29''
   \<and> real_date 2024 2 29 \<and> ''2024-02-29'' \<in> set (accepted_texts 2024 2 29)"
proof -
  have sp: "spec_valid_date ''2024-02-29''"
    by (simp add: spec_valid_date_def real_date_def is_digit_def digit_val_def
          days_in_month_def is_leap_def)
  have rd: "real_date 2024 2 29"
    by (simp add: real_date_def days_in_month_def is_leap_def)
  have ac: "''2024-02-29'' \<in> set (accepted_texts 2024 2 29)"
    by (simp add: accepted_texts_def pad4_def month_texts_def day_texts_def digit_char_lits)
  from is_valid_date_iff [of "''2024-02-29''"] sp rd ac show ?thesis by blast
qed

lemma is_valid_date_examples:
  "\<not> is_valid_date ''2024-02-30''" "is_valid_date ''2024-02-29''"
  "\<not> is_valid_date ''2023-02-29''" "\<not> is_valid_date ''''" "\<not> is_valid_date ''2024-13-01''"
  by (simp_all add: is_valid_date_def strptime_ymd_def re_ymd_def re_m_def re_d_def
        make_date_def is_digit_def digit_val_def in_range_def days_in_month_def is_leap_def)

section \<open>The ledger under the operations\<close>

lemma view_loop_ledger: "view_loop fstr i n exs st = (r, st') \<Longrightarrow> ledger st' = ledger st"
  by (induction fstr i n exs st rule: view_loop.induct)
     (auto split: if_splits sum.splits)

lemma view_expenses_ledger: "view_expenses fstr st = (r, st') \<Longrightarrow> ledger st' = ledger st"
  unfolding view_expenses_def
  by (auto split: if_splits prod.splits sum.splits dest!: view_loop_ledger)

lemma total_expenses_ledger: "total_expenses st = (x, st') \<Longrightarrow> ledger st' = ledger st"
  by (auto simp: total_expenses_def)

lemma set_budget_ledger: "set_budget st = (r, st') \<Longrightarrow> ledger st' = ledger st"
  unfolding set_budget_def
  by (auto split: prod.splits sum.splits if_splits exc.splits
           dest!: py_input_Inr py_input_Inl)

lemma report_budget_ledger: "report_budget b st = (r, st') \<Longrightarrow> ledger st' = ledger st"
  unfolding report_budget_def total_expenses_def Let_def
  by (auto split: if_splits)

lemma track_budget_ledger: "track_budget b st = (r, st') \<Longrightarrow> ledger st' = ledger st"
  unfolding track_budget_def
  by (auto split: option.splits prod.splits sum.splits
           dest!: set_budget_ledger report_budget_ledger)

lemma save_expenses_ledger: "save_expenses fstr f st = (r, st') \<Longrightarrow> ledger st' = ledger st"
  unfolding save_expenses_def
  by (auto split: option.splits prod.splits)

text \<open>
  C10: \<open>view_expenses\<close>, \<open>total_expenses\<close>, \<open>track_budget\<close> and \<open>save_expenses\<close> leave the
  list of expenses as it was, whatever they return or raise.
\<close>

theorem readers_keep_ledger:
  "ledger (snd (view_expenses fstr st)) = ledger st
   \<and> ledger (snd (total_expenses st)) = ledger st
   \<and> ledger (snd (track_budget budget st)) = ledger st
   \<and> ledger (snd (save_expenses fstr filename st)) = ledger st"
  using view_expenses_ledger [of fstr st] total_expenses_ledger [of st]
    track_budget_ledger [of budget st] save_expenses_ledger [of fstr filename st]
  by (metis prod.collapse)

section \<open>Only complete records enter the ledger\<close>

lemma is_complete_make_expense:
  "is_complete_expense (make_expense d c a ds) \<longleftrightarrow> d \<noteq> [] \<and> c \<noteq> [] \<and> ds \<noteq> []"
  by (auto simp: is_complete_expense_def make_expense_def is_sentinel_def)

lemma is_valid_date_nonempty: "is_valid_date s \<Longrightarrow> s \<noteq> []"
  by (auto simp: is_valid_date_def strptime_ymd_def re_ymd_def)

lemma add_expense_ledger:
  "add_expense st = (r, st') \<Longrightarrow>
     ledger st' = ledger st \<or> (\<exists>ex. is_complete_expense ex \<and> ledger st' = ledger st @ [ex])"
  unfolding add_expense_def Let_def
  by (auto split: prod.splits sum.splits if_splits exc.splits
           simp: is_complete_make_expense is_valid_date_nonempty
           dest!: py_input_Inr py_input_Inl)

lemma load_row_complete: "load_row row = Inr (Some ex) \<Longrightarrow> is_complete_expense ex"
  unfolding load_row_def Let_def
  by (auto split: if_splits sum.splits exc.splits simp: is_complete_make_expense)

lemma load_loop_complete: "load_loop rows = (exs, err) \<Longrightarrow> list_all is_complete_expense exs"
  by (induction rows arbitrary: exs err)
     (auto split: sum.splits option.splits prod.splits dest: load_row_complete)

lemma load_expenses_complete:
  "load_expenses f st = (Inr exs, st') \<Longrightarrow> list_all is_complete_expense exs"
  unfolding load_expenses_def load_file_def
  by (auto split: option.splits prod.splits dest: load_loop_complete)

lemma load_expenses_Inr: "\<exists>exs st'. load_expenses f st = (Inr exs, st')"
  unfolding load_expenses_def
  by (auto split: option.splits prod.splits)

lemma show_menu_fields [simp]:
  "ledger (show_menu st) = ledger st" "stdin (show_menu st) = stdin st"
  "files (show_menu st) = files st" "wfail (show_menu st) = wfail st"
  by (simp_all add: show_menu_def)

lemma menu_choice_complete:
  assumes "menu_choice fstr c b st = (r, st')" "list_all is_complete_expense (ledger st)"
  shows "list_all is_complete_expense (ledger st')"
  using assms unfolding menu_choice_def
  by (auto split: if_splits prod.splits sum.splits
           dest!: add_expense_ledger view_expenses_ledger track_budget_ledger
                  save_expenses_ledger)

lemma menu_pass_complete:
  assumes "menu_pass fstr b st = (r, st')" "list_all is_complete_expense (ledger st)"
  shows "list_all is_complete_expense (ledger st')"
proof (cases "py_input ''Choose an option (1-5): '' (show_menu st)")
  case (Pair a st1)
  show ?thesis
  proof (cases a)
    case (Inl e)
    with Pair assms show ?thesis
      by (auto simp: menu_pass_def dest!: py_input_Inl)
  next
    case (Inr l)
    with Pair have "ledger st1 = ledger st" by (auto dest!: py_input_Inr)
    with Pair Inr assms menu_choice_complete [of fstr "strip l" b st1 r st'] show ?thesis
      by (simp add: menu_pass_def)
  qed
qed

lemma main_loop_complete:
  "main_loop fstr b st = (r, st') \<Longrightarrow> list_all is_complete_expense (ledger st) \<Longrightarrow>
     list_all is_complete_expense (ledger st')"
proof (induction fstr b st arbitrary: r st' rule: main_loop.induct)
  case (1 fstr budget st)
  obtain a st1 where mp: "menu_pass fstr budget st = (a, st1)" by (cases "menu_pass fstr budget st")
  have c1: "list_all is_complete_expense (ledger st1)"
    using menu_pass_complete [OF mp "1.prems"(2)] .
  show ?case
  proof (cases a)
    case (Inl e)
    with mp "1.prems"(1) c1 show ?thesis by (simp add: main_loop.simps [of fstr budget st])
  next
    case (Inr x)
    show ?thesis
    proof (cases x)
      case None
      with Inr mp "1.prems"(1) c1 show ?thesis by (simp add: main_loop.simps [of fstr budget st])
    next
      case (Some b')
      with Inr mp "1.prems"(1) have "main_loop fstr b' st1 = (r, st')"
        by (simp add: main_loop.simps [of fstr budget st])
      from "1.IH" [OF mp [symmetric] Inr Some this c1] show ?thesis .
    qed
  qed
qed

lemma main_complete: "main fstr st = (r, st') \<Longrightarrow> list_all is_complete_expense (ledger st')"
proof -
  assume m: "main fstr st = (r, st')"
  obtain exs st1 where l: "load_expenses ''expenses.csv'' st = (Inr exs, st1)"
    using load_expenses_Inr by blast
  have c: "list_all is_complete_expense exs" using load_expenses_complete [OF l] .
  show ?thesis
    using m l c unfolding main_def Let_def
    by (auto split: if_splits dest!: main_loop_complete)
qed

text \<open>
  C9: every record that \<open>load_expenses\<close> returns is complete, \<open>add_expense\<close> leaves the
  ledger as it was or appends one complete record, and so the ledger of the program, which
  is loaded at the start and changed by \<open>add_expense\<close> only, holds complete records when the
  program ends.
\<close>

theorem ledger_only_complete:
  "(\<forall>exs st'. load_expenses filename st = (Inr exs, st') \<longrightarrow> list_all is_complete_expense exs)
   \<and> (\<forall>r st'. add_expense st = (r, st') \<longrightarrow>
         ledger st' = ledger st
         \<or> (\<exists>ex. is_complete_expense ex \<and> ledger st' = ledger st @ [ex]))
   \<and> (\<forall>r st'. main fstr st = (r, st') \<longrightarrow> list_all is_complete_expense (ledger st'))"
  using load_expenses_complete add_expense_ledger main_complete by blast

definition lunch :: expense where
  "lunch = make_expense ''2024-03-01'' ''Food'' (Finite (25 / 2)) ''Lunch with client''"

definition no_description :: expense where
  "no_description = [''date'' \<mapsto> VStr ''2024-03-02'', ''category'' \<mapsto> VStr ''Travel'',
                     ''amount'' \<mapsto> VFloat (Finite 3)]"

definition demo_state :: state where
  "demo_state = \<lparr>ledger = [lunch, no_description], stdin = [], stdout = [],
                  files = Map.empty, wfail = Map.empty\<rparr>"

theorem readers_keep_ledger_witness:
  "ledger (snd (view_expenses fmt2 demo_state)) = [lunch, no_description]
   \<and> ledger (snd (total_expenses demo_state)) = [lunch, no_description]
   \<and> ledger (snd (track_budget (Some (Finite 100)) demo_state)) = [lunch, no_description]
   \<and> ledger (snd (save_expenses fmt2 ''expenses.csv'' demo_state)) = [lunch, no_description]"
  using readers_keep_ledger [of fmt2 demo_state "Some (Finite 100)" "''expenses.csv''"]
  by (simp add: demo_state_def)

definition add_state :: state where
  "add_state = \<lparr>ledger = [], stdin = [''2024-03-05'', ''Travel'', ''5.999'', ''Taxi''],
                 stdout = [], files = Map.empty, wfail = Map.empty\<rparr>"

lemma add_state_run:
  "fst (add_expense add_state) = Inr ()
   \<and> map (\<lambda>ex. map ex CSV_HEADERS) (ledger (snd (add_expense add_state)))
       = [[Some (VStr ''2024-03-05''), Some (VStr ''Travel''), Some (VFloat (Finite 6)),
           Some (VStr ''Taxi'')]]"
  by code_simp

theorem ledger_only_complete_witness:
  "list_all is_complete_expense (ledger (snd (add_expense add_state)))
   \<and> length (ledger (snd (add_expense add_state))) = 1"
proof -
  obtain r st' where a: "add_expense add_state = (r, st')" by (cases "add_expense add_state")
  from ledger_only_complete [of "''expenses.csv''" add_state fmt2] a
  have "ledger st' = ledger add_state
        \<or> (\<exists>ex. is_complete_expense ex \<and> ledger st' = ledger add_state @ [ex])"
    by blast
  moreover have l: "length (ledger st') = 1"
    using add_state_run a by (auto dest: arg_cong [where f = length])
  moreover have "ledger add_state = []" by (simp add: add_state_def)
  ultimately show ?thesis using a by auto
qed

section \<open>The total\<close>




section \<open>The budget verdict\<close>

lemma f_le_not_gt: "f_le x y \<Longrightarrow> \<not> f_gt x y"
  by (auto simp: f_le_def f_gt_def f_lt_def split: option.splits prod.splits)

definition budget_lines :: "pyfloat \<Rightarrow> pyfloat \<Rightarrow> state \<Rightarrow> state" where
  \<comment> \<open>the two lines \<open>track_budget\<close> prints before its verdict\<close>
  "budget_lines spent budget st =
     py_print (''Monthly budget: '' @ fmt2 budget)
       (py_print (''Total spent so far: '' @ fmt2 spent) st)"

text \<open>
  C5: with a budget set, \<open>track_budget\<close> compares the total spent with it. When the total
  is at most the budget, equality included, it prints what is left, the budget minus the
  total rounded to two decimals; when the total is above the budget it prints the warning.
  In both cases it returns the budget and raises nothing.
\<close>

theorem track_budget_verdict:
  "(f_le (fst (total_expenses st)) b \<longrightarrow>
      track_budget (Some b) st =
        (Inr (Some b),
         py_print (''You have '' @ fmt2 (round2 (fsub b (fst (total_expenses st))))
                   @ '' left for the month.'')
           (budget_lines (fst (total_expenses st)) b st)))
   \<and> (f_gt (fst (total_expenses st)) b \<longrightarrow>
      track_budget (Some b) st =
        (Inr (Some b),
         py_print ''WARNING: You have exceeded your budget!''
           (budget_lines (fst (total_expenses st)) b st)))"
  by (auto simp: track_budget_def report_budget_def total_expenses_def budget_lines_def Let_def
           dest: f_le_not_gt)

definition spent_100 :: state where
  "spent_100 = \<lparr>ledger = [make_expense ''2024-03-01'' ''Rent'' (Finite 100) ''Room''],
                 stdin = [], stdout = [], files = Map.empty, wfail = Map.empty\<rparr>"

definition spent_100_01 :: state where
  "spent_100_01 = snd (add_expense \<lparr>ledger = [],
                   stdin = [''2024-03-01'', ''Rent'', ''100.01'', ''Room''],
                   stdout = [], files = Map.empty, wfail = Map.empty\<rparr>)"

lemma spent_100_total:
  "fst (total_expenses spent_100) = Finite 100 \<and> f_le (Finite 100) (Finite 100)
   \<and> fmt2 (round2 (fsub (Finite 100) (Finite 100))) = ''0.00''"
  by code_simp

lemma spent_100_01_total:
  "f_gt (fst (total_expenses spent_100_01)) (Finite 100)
   \<and> fmt2 (fst (total_expenses spent_100_01)) = ''100.01''"
  by code_simp

theorem track_budget_verdict_witness:
  "last (stdout (snd (track_budget (Some (Finite 100)) spent_100)))
     = ''You have 0.00 left for the month.'' @ [LF]
   \<and> last (stdout (snd (track_budget (Some (Finite 100)) spent_100_01)))
     = ''WARNING: You have exceeded your budget!'' @ [LF]"
  using track_budget_verdict [of spent_100 "Finite 100"]
    track_budget_verdict [of spent_100_01 "Finite 100"]
    spent_100_total spent_100_01_total
  by simp

section \<open>What \<open>add_expense\<close> does with its four answers\<close>

lemma py_float_error: "py_float s = Inl e \<Longrightarrow> e = ValueError"
  by (auto simp: py_float_def Let_def split: if_splits option.splits)

lemma py_input_Cons:
  "stdin st = l # ls \<Longrightarrow>
     py_input p st = (Inr l, st\<lparr>stdout := stdout st @ [p], stdin := ls\<rparr>)"
  by (simp add: py_input_def Let_def)



definition answers :: "string list \<Rightarrow> state" where
  \<comment> \<open>a state with an empty list and the given lines to read\<close>
  "answers ls = \<lparr>ledger = [], stdin = ls, stdout = [], files = Map.empty, wfail = Map.empty\<rparr>"






section \<open>Which rows \<open>load_expenses\<close> keeps\<close>

definition column :: "(string \<Rightarrow> string option) \<Rightarrow> string \<Rightarrow> string" where
  \<comment> \<open>a column of a row, trimmed; empty when the row has no such column\<close>
  "column row k = strip (or_empty (row k))"

definition acceptable_row :: "(string \<Rightarrow> string option) \<Rightarrow> bool" where
  \<comment> \<open>the specification's words: the four columns are non-empty after trimming, the date
      passes \<open>is_valid_date\<close>, and the amount parses as a number\<close>
  "acceptable_row row =
     (column row ''date'' \<noteq> [] \<and> column row ''category'' \<noteq> [] \<and> column row ''amount'' \<noteq> []
      \<and> column row ''description'' \<noteq> [] \<and> is_valid_date (column row ''date'')
      \<and> (case py_float (column row ''amount'') of Inr x \<Rightarrow> True | Inl e \<Rightarrow> False))"

definition row_record :: "(string \<Rightarrow> string option) \<Rightarrow> expense" where
  \<comment> \<open>the record of an accepted row: the trimmed columns, the amount rounded\<close>
  "row_record row =
     make_expense (column row ''date'') (column row ''category'')
       (round2 (case py_float (column row ''amount'') of Inr x \<Rightarrow> x | Inl e \<Rightarrow> NaN))
       (column row ''description'')"

lemma load_row_eq:
  "load_row row = Inr (if acceptable_row row then Some (row_record row) else None)"
  by (auto simp: load_row_def acceptable_row_def row_record_def column_def Let_def
           split: sum.splits exc.splits dest: py_float_error)

lemma load_loop_eq: "load_loop rows = (map row_record (filter acceptable_row rows), None)"
  by (induction rows) (simp_all add: load_row_eq)

lemma load_file_eq:
  "load_file node =
     (map row_record (filter acceptable_row (dict_rows (fst (file_rows node)))),
      snd (file_rows node))"
  by (simp add: load_file_def load_loop_eq split: prod.splits)





section \<open>Failures while loading\<close>

lemma reader_rows_fin: "\<exists>rs e'. reader_rows (Some e) p ls = (rs, Some e')"
proof (induction ls arbitrary: p)
  case Nil
  show ?case by simp
next
  case (Cons l ls)
  show ?case
  proof (cases "feed_line p l")
    case (Inl x)
    then show ?thesis by simp
  next
    case (Inr p')
    from Cons [of parser0] obtain rs e' where 1: "reader_rows (Some e) parser0 ls = (rs, Some e')"
      by blast
    from Cons [of p'] obtain rs' e'' where 2: "reader_rows (Some e) p' ls = (rs', Some e'')"
      by blast
    show ?thesis using Inr 1 2 by simp
  qed
qed

lemma file_rows_Broken: "\<exists>e'. snd (file_rows (Broken body e)) = Some e'"
  using reader_rows_fin [of e parser0 "filter ends_line (split_lines [] body)"]
  by (auto simp: file_rows_def)

text \<open>
  C7: \<open>load_expenses\<close> never raises. On a file that does not exist it returns the empty
  list and changes nothing. When reading fails (the file cannot be opened or decoded, or
  the CSV reader raises), the exception is caught, the warning is printed, and the records
  of the rows read before the failure are returned; a failure of reading always ends in
  the warning. Without a failure nothing is printed.
\<close>

theorem load_expenses_failures:
  "(files st filename = None \<longrightarrow> load_expenses filename st = (Inr [], st))
   \<and> (\<exists>exs. fst (load_expenses filename st) = Inr exs)
   \<and> (files st filename = Some node \<and> snd (file_rows node) = Some e \<longrightarrow>
        load_expenses filename st =
          (Inr (map row_record (filter acceptable_row (dict_rows (fst (file_rows node))))),
           py_print (''Failed to load expenses: '' @ exc_str e) st))
   \<and> (files st filename = Some node \<and> snd (file_rows node) = None \<longrightarrow>
        load_expenses filename st =
          (Inr (map row_record (filter acceptable_row (dict_rows (fst (file_rows node))))), st))
   \<and> (files st filename = Some (Broken body e) \<longrightarrow>
        (\<exists>e'. snd (file_rows (Broken body e)) = Some e'))"
  using file_rows_Broken [of body e]
  by (auto simp: load_expenses_def load_file_eq split: option.splits)

definition broken_file :: fnode where
  \<comment> \<open>a file with a header and a row that can be read, and bytes that cannot be decoded\<close>
  "broken_file = Broken (''date,category,amount,description'' @ [CR, LF]
     @ ''2024-03-01,Food,12.50,Lunch'' @ [CR, LF] @ ''2024-03-0'')
     (UnicodeDecodeError ''invalid start byte'')"

lemma broken_file_rows:
  "snd (file_rows broken_file) = Some (UnicodeDecodeError ''invalid start byte'')
   \<and> map (\<lambda>ex. map ex CSV_HEADERS)
       (map row_record (filter acceptable_row (dict_rows (fst (file_rows broken_file)))))
     = [[Some (VStr ''2024-03-01''), Some (VStr ''Food''), Some (VFloat (Finite (25 / 2))),
         Some (VStr ''Lunch'')]]"
  by code_simp

theorem load_expenses_failures_witness:
  "load_expenses ''expenses.csv'' (answers []) = (Inr [], answers [])
   \<and> stdout (snd (load_expenses ''expenses.csv''
                ((answers [])\<lparr>files := [''expenses.csv'' \<mapsto> broken_file]\<rparr>)))
       = [''Failed to load expenses: invalid start byte'' @ [LF]]
   \<and> map (\<lambda>ex. map ex CSV_HEADERS)
       (case fst (load_expenses ''expenses.csv''
                   ((answers [])\<lparr>files := [''expenses.csv'' \<mapsto> broken_file]\<rparr>)) of
          Inr exs \<Rightarrow> exs | Inl e \<Rightarrow> [])
     = [[Some (VStr ''2024-03-01''), Some (VStr ''Food''), Some (VFloat (Finite (25 / 2))),
         Some (VStr ''Lunch'')]]"
proof -
  have 1: "load_expenses ''expenses.csv'' (answers []) = (Inr [], answers [])"
    using load_expenses_failures [of "answers []" "''expenses.csv''"]
    by (simp add: answers_def)
  have 2: "load_expenses ''expenses.csv''
             ((answers [])\<lparr>files := [''expenses.csv'' \<mapsto> broken_file]\<rparr>)
           = (Inr (map row_record (filter acceptable_row
                     (dict_rows (fst (file_rows broken_file))))),
              py_print (''Failed to load expenses: ''
                        @ exc_str (UnicodeDecodeError ''invalid start byte''))
                ((answers [])\<lparr>files := [''expenses.csv'' \<mapsto> broken_file]\<rparr>))"
    using load_expenses_failures
      [of "(answers [])\<lparr>files := [''expenses.csv'' \<mapsto> broken_file]\<rparr>" "''expenses.csv''"
          broken_file "UnicodeDecodeError ''invalid start byte''"]
      broken_file_rows
    by simp
  show ?thesis
    unfolding 2 using 1 broken_file_rows by (simp add: answers_def)
qed

section \<open>A destination that cannot be opened\<close>

lemma save_expenses_wfail:
  "wfail st filename = Some e \<Longrightarrow> save_expenses fstr filename st = (Inl e, st)"
  by (simp add: save_expenses_def)

lemma menu_choice_wfail:
  assumes "wfail st ''expenses.csv'' = Some e" "c = ''4'' \<or> c = ''5''"
  shows "menu_choice fstr c b st = (Inl e, st)"
  using assms by (auto simp: menu_choice_def save_expenses_wfail)

lemma main_loop_wfail:
  assumes "stdin st = l # ls" "strip l = ''4'' \<or> strip l = ''5''"
    and "wfail st ''expenses.csv'' = Some e"
  shows "fst (main_loop fstr b st) = Inl e \<and> stdin (snd (main_loop fstr b st)) = ls
         \<and> files (snd (main_loop fstr b st)) = files st
         \<and> stdout (snd (main_loop fstr b st))
             = stdout (show_menu st) @ [''Choose an option (1-5): '']"
proof -
  define st1 where "st1 = (show_menu st)\<lparr>stdout := stdout (show_menu st)
                            @ [''Choose an option (1-5): ''], stdin := ls\<rparr>"
  have i: "py_input ''Choose an option (1-5): '' (show_menu st) = (Inr l, st1)"
    using assms(1) by (simp add: py_input_Cons st1_def)
  have w: "wfail st1 ''expenses.csv'' = Some e" using assms(3) by (simp add: st1_def)
  have "menu_pass fstr b st = (Inl e, st1)"
    using i menu_choice_wfail [OF w assms(2)] by (simp add: menu_pass_def)
  then have "main_loop fstr b st = (Inl e, st1)"
    by (simp add: main_loop.simps [of fstr b st])
  then show ?thesis by (simp add: st1_def)
qed

definition locked :: state where
  \<comment> \<open>nothing saved yet, and the file cannot be created; the user saves, then would go on\<close>
  "locked = \<lparr>ledger = [], stdin = [''4'', ''2'', ''5''], stdout = [], files = Map.empty,
              wfail = [''expenses.csv'' \<mapsto> OSError ''Permission denied'']\<rparr>"

text \<open>
  C8, as the specification states it: when the destination cannot be opened for writing,
  the error is printed as a message and the save is given up without crashing the process.
  In the code nothing catches the error: the program ends with it at the first save, with
  the rest of the input unread and nothing printed after the prompt.
\<close>

theorem save_failure_ends_program:
  "fst (main fmt2 locked) = Inl (OSError ''Permission denied'')
   \<and> stdin (snd (main fmt2 locked)) = [''2'', ''5'']
   \<and> last (stdout (snd (main fmt2 locked))) = ''Choose an option (1-5): ''"
  by code_simp

text \<open>
  C8, amended: when the destination cannot be opened for writing, \<open>save_expenses\<close> raises
  the error to its caller; it prints nothing, writes nothing and leaves the state as it
  was, so the error is never swallowed. \<open>main\<close> does not catch it: at option 4 or 5 the menu
  loop ends with that exception, the files as they were and the remaining input unread.
\<close>

theorem save_failure_is_raised:
  "(wfail st filename = Some e \<longrightarrow> save_expenses fstr filename st = (Inl e, st))
   \<and> (stdin st = l # ls \<and> (strip l = ''4'' \<or> strip l = ''5'')
        \<and> wfail st ''expenses.csv'' = Some e \<longrightarrow>
        fst (main_loop fstr b st) = Inl e \<and> stdin (snd (main_loop fstr b st)) = ls
        \<and> files (snd (main_loop fstr b st)) = files st
        \<and> stdout (snd (main_loop fstr b st))
            = stdout (show_menu st) @ [''Choose an option (1-5): ''])"
  using save_expenses_wfail main_loop_wfail by blast

theorem save_failure_is_raised_witness:
  "save_expenses fmt2 ''expenses.csv'' locked = (Inl (OSError ''Permission denied''), locked)
   \<and> fst (main_loop fmt2 None locked) = Inl (OSError ''Permission denied'')
   \<and> stdin (snd (main_loop fmt2 None locked)) = [''2'', ''5'']"
proof -
  have w: "wfail locked ''expenses.csv'' = Some (OSError ''Permission denied'')"
    by (simp add: locked_def)
  have s: "stdin locked = ''4'' # [''2'', ''5'']" "strip ''4'' = ''4''"
    by (simp add: locked_def) code_simp
  from save_failure_is_raised
    [of locked "''expenses.csv''" "OSError ''Permission denied''" fmt2 "''4''" "[''2'', ''5'']" None]
    w s
  show ?thesis by simp
qed

section \<open>Facts about the rounding of floats\<close>

lemma pow2_powi: "pow2 k = 2 powi k"
  by (simp add: pow2_def power_int_def field_simps)

lemma pow2_pos [simp]: "0 < pow2 k"
  by (simp add: pow2_powi zero_less_power_int)

lemma pow2_add: "pow2 (a + b) = pow2 a * pow2 b"
  by (simp add: pow2_powi power_int_add)

lemma pow2_nat: "0 \<le> k \<Longrightarrow> pow2 k = 2 ^ nat k"
  by (simp add: pow2_def)

lemma pow2_less_iff [simp]: "pow2 a < pow2 b \<longleftrightarrow> a < b"
proof
  assume "a < b"
  then show "pow2 a < pow2 b"
    unfolding pow2_powi by (intro power_int_strict_increasing) simp_all
next
  assume l: "pow2 a < pow2 b"
  show "a < b"
  proof (rule ccontr)
    assume "\<not> a < b"
    then have "b \<le> a" by simp
    then have "pow2 b \<le> pow2 a"
      unfolding pow2_powi by (intro power_int_increasing) simp_all
    with l show False by simp
  qed
qed

lemma pow2_le_iff [simp]: "pow2 a \<le> pow2 b \<longleftrightarrow> a \<le> b"
  using pow2_less_iff [of b a] by (simp add: not_less [symmetric] del: pow2_less_iff)

lemma ilog2_bounds:
  assumes "0 < q"
  shows "pow2 (ilog2 q) \<le> q \<and> q < pow2 (ilog2 q + 1)"
proof (cases "1 \<le> q")
  case True
  define n where "n = \<lfloor>q\<rfloor>"
  have n: "0 < n" "of_int n \<le> q" "q < of_int n + 1"
    using True by (simp_all add: n_def) linarith+
  from bitlen_bounds [OF n(1)] have b: "2 ^ nat (bitlen n - 1) \<le> n" "n < 2 ^ nat (bitlen n)"
    by simp_all
  have b1: "1 \<le> bitlen n" using n(1) by (simp add: bitlen_alt_def)
  have i: "ilog2 q = bitlen n - 1" using True by (simp add: ilog2_def n_def)
  have "pow2 (bitlen n - 1) = of_int (2 ^ nat (bitlen n - 1))"
    using b1 by (simp add: pow2_nat)
  also have "\<dots> \<le> of_int n" using b(1) by (simp only: of_int_le_iff)
  finally have lo: "pow2 (ilog2 q) \<le> q" using n(2) by (simp add: i)
  have "n + 1 \<le> 2 ^ nat (bitlen n)" using b(2) by simp
  then have "(of_int (n + 1) :: rat) \<le> of_int (2 ^ nat (bitlen n))" by (simp only: of_int_le_iff)
  then have "q < of_int (2 ^ nat (bitlen n))" using n(3) by simp
  also have "\<dots> = pow2 (bitlen n)" using b1 by (simp add: pow2_nat)
  finally have "q < pow2 (ilog2 q + 1)" by (simp add: i)
  with lo show ?thesis by simp
next
  case False
  define x where "x = 1 / q"
  define k where "k = \<lceil>x\<rceil> - 1"
  have x1: "1 < x" using False assms by (simp add: x_def)
  have k: "0 < k" "of_int k < x" "x \<le> of_int k + 1"
    using x1 by (simp_all add: k_def) linarith+
  from bitlen_bounds [OF k(1)] have b: "2 ^ nat (bitlen k - 1) \<le> k" "k < 2 ^ nat (bitlen k)"
    by simp_all
  have b1: "1 \<le> bitlen k" using k(1) by (simp add: bitlen_alt_def)
  have i: "ilog2 q = - bitlen k" using False by (simp add: ilog2_def k_def x_def)
  have q: "q = 1 / x" using assms by (simp add: x_def)
  have "k + 1 \<le> 2 ^ nat (bitlen k)" using b(2) by simp
  then have "(of_int (k + 1) :: rat) \<le> of_int (2 ^ nat (bitlen k))" by (simp only: of_int_le_iff)
  then have "x \<le> (of_int (2 ^ nat (bitlen k)) :: rat)" using k(3) by simp
  then have xle: "x \<le> 2 ^ nat (bitlen k)" by simp
  have "pow2 (- bitlen k) = 1 / 2 ^ nat (bitlen k)" using b1 by (simp add: pow2_def)
  also have "\<dots> \<le> 1 / x" using xle x1 by (intro divide_left_mono) simp_all
  finally have lo: "pow2 (ilog2 q) \<le> q" unfolding i using q by simp
  have "(of_int (2 ^ nat (bitlen k - 1)) :: rat) \<le> of_int k" using b(1) by (simp only: of_int_le_iff)
  then have "(of_int (2 ^ nat (bitlen k - 1)) :: rat) < x" using k(2) by linarith
  then have xg: "2 ^ nat (bitlen k - 1) < x" by simp
  have xp: "0 < x" using x1 by simp
  have "1 / x < 1 / 2 ^ nat (bitlen k - 1)"
    using xg xp by (intro divide_strict_left_mono mult_pos_pos) simp_all
  also have "\<dots> = pow2 (- bitlen k + 1)"
  proof (cases "bitlen k = 1")
    case True
    then show ?thesis by (simp add: pow2_def)
  next
    case False
    with b1 have "- bitlen k + 1 < 0" "nat (- (- bitlen k + 1)) = nat (bitlen k - 1)" by simp_all
    then show ?thesis by (simp add: pow2_def)
  qed
  finally have "q < pow2 (ilog2 q + 1)" unfolding i using q by simp
  with lo show ?thesis by simp
qed

lemma ilog2_unique:
  assumes "pow2 e \<le> q" "q < pow2 (e + 1)"
  shows "ilog2 q = e"
proof -
  have q: "0 < q" using assms(1) pow2_pos [of e] by linarith
  from ilog2_bounds [OF q] have b: "pow2 (ilog2 q) \<le> q" "q < pow2 (ilog2 q + 1)" by simp_all
  have "pow2 e < pow2 (ilog2 q + 1)" using assms(1) b(2) by linarith
  moreover have "pow2 (ilog2 q) < pow2 (e + 1)" using assms(2) b(1) by linarith
  ultimately show ?thesis by simp
qed

lemma rhe_err: "\<bar>of_int (rhe x) - x\<bar> \<le> 1 / 2"
  unfolding rhe_def Let_def by (auto simp: abs_if) linarith+

lemma rhe_unique:
  assumes "\<bar>x - of_int k\<bar> < 1 / 2"
  shows "rhe x = k"
proof -
  have "\<bar>(of_int (rhe x) :: rat) - of_int k\<bar> < 1"
    using rhe_err [of x] assms by linarith
  then have "\<bar>(of_int (rhe x - k) :: rat)\<bar> < of_int 1" by simp
  then have "\<bar>rhe x - k\<bar> < 1" by (simp only: of_int_abs [symmetric] of_int_less_iff)
  then show ?thesis by simp
qed

lemma rhe_of_int [simp]: "rhe (of_int k) = k"
  by (rule rhe_unique) simp

lemma rhe_ge: "of_int k \<le> x \<Longrightarrow> k \<le> rhe x"
  unfolding rhe_def Let_def by (auto simp: le_floor_iff) linarith+

lemma rhe_le: "x \<le> of_int k \<Longrightarrow> rhe x \<le> k"
proof -
  assume a: "x \<le> of_int k"
  show ?thesis
  proof (cases "x = of_int k")
    case True then show ?thesis by simp
  next
    case False
    with a have "x < of_int k" by simp
    then have "\<lfloor>x\<rfloor> < k" by (simp add: floor_less_iff)
    then have "\<lfloor>x\<rfloor> + 1 \<le> k" by simp
    then show ?thesis unfolding rhe_def Let_def by auto
  qed
qed

lemma pow2_numeral [simp]: "pow2 (numeral n) = 2 ^ numeral n"
  by (simp add: pow2_def)

lemma pow2_split: "pow2 e = pow2 k * pow2 (e - k)"
  using pow2_add [of k "e - k"] by simp

lemma pow2_nonneg [simp]: "0 \<le> pow2 k"
  using pow2_pos [of k] by (rule less_imp_le)

lemma pow2_neq0 [simp]: "pow2 k \<noteq> 0"
  using pow2_pos [of k] by (simp only: less_le) simp

lemma quantum_pos [simp]: "0 < quantum q"
  by (simp add: quantum_def)

lemma quantum_nonneg [simp]: "0 \<le> quantum q"
  using quantum_pos [of q] by (rule less_imp_le)

lemma quantum_neq0 [simp]: "quantum q \<noteq> 0"
  by (simp add: quantum_def)

lemma round_mag_err:
  assumes "0 < q"
  shows "\<bar>round_mag q - q\<bar> \<le> quantum q / 2"
proof -
  let ?u = "quantum q"
  let ?m = "of_int (rhe (q / ?u)) :: rat"
  have u: "0 < ?u" by simp
  have "\<bar>?m - q / ?u\<bar> \<le> 1 / 2" by (rule rhe_err)
  then have a: "\<bar>?m - q / ?u\<bar> * ?u \<le> 1 / 2 * ?u"
    using u by (intro mult_right_mono) simp_all
  have "(?m - q / ?u) * ?u = ?m * ?u - q" using u by (simp add: field_simps)
  then have "\<bar>?m * ?u - q\<bar> = \<bar>?m - q / ?u\<bar> * \<bar>?u\<bar>" by (simp only: abs_mult [symmetric])
  also have "\<dots> = \<bar>?m - q / ?u\<bar> * ?u" using u by (simp only: abs_of_pos)
  finally have "\<bar>?m * ?u - q\<bar> \<le> ?u / 2" using a by simp
  moreover have "round_mag q = ?m * ?u" using assms by (simp add: round_mag_def)
  ultimately show ?thesis by simp
qed

definition mag :: "int \<Rightarrow> int \<Rightarrow> rat \<Rightarrow> bool" where
  \<comment> \<open>\<open>r\<close> is the magnitude of a binary64 value with exponent \<open>e\<close> and significand \<open>m\<close>\<close>
  "mag e m r = (r = of_int m * pow2 (e - 52) \<and> - 1022 \<le> e \<and> 0 < m \<and> m \<le> 2 ^ 53
                \<and> (2 ^ 52 \<le> m \<or> e = - 1022))"

lemma round_mag_mag:
  assumes "0 < q"
  shows "round_mag q = 0 \<or> mag (max (ilog2 q) (- 1022)) (rhe (q / quantum q)) (round_mag q)"
proof -
  define e where "e = max (ilog2 q) (- 1022)"
  define u where "u = pow2 (e - 52)"
  define m where "m = rhe (q / u)"
  have u: "0 < u" "quantum q = u" by (simp_all add: u_def quantum_def e_def)
  have r: "round_mag q = of_int m * u" using assms by (simp add: round_mag_def u m_def)
  from ilog2_bounds [OF assms] have b: "pow2 (ilog2 q) \<le> q" "q < pow2 (ilog2 q + 1)"
    by simp_all
  have "pow2 (ilog2 q + 1) \<le> pow2 (e + 1)" by (simp add: e_def)
  with b(2) have "q < pow2 (e + 1)" by linarith
  also have "pow2 (e + 1) = pow2 53 * u"
    using pow2_split [of "e + 1" 53] by (simp add: u_def)
  finally have "q / u < 2 ^ 53" using u(1) by (simp add: field_simps)
  then have "q / u \<le> of_int (2 ^ 53)" by simp
  then have m53: "m \<le> 2 ^ 53" unfolding m_def by (rule rhe_le)
  have "of_int 0 \<le> q / u" using assms u(1) by simp
  then have m0: "0 \<le> m" unfolding m_def by (rule rhe_ge)
  show ?thesis
  proof (cases "m = 0")
    case True
    then show ?thesis by (simp add: r)
  next
    case False
    have lo: "2 ^ 52 \<le> m \<or> e = - 1022"
    proof (cases "- 1022 \<le> ilog2 q")
      case True
      then have "e = ilog2 q" by (simp add: e_def)
      with b(1) have "pow2 e \<le> q" by simp
      moreover have "pow2 e = pow2 52 * u" using pow2_split [of e 52] by (simp add: u_def)
      ultimately have "of_int (2 ^ 52) \<le> q / u" using u(1) by (simp add: field_simps)
      then have "2 ^ 52 \<le> m" unfolding m_def by (rule rhe_ge)
      then show ?thesis by simp
    next
      case False
      then show ?thesis by (simp add: e_def)
    qed
    have "mag e m (round_mag q)"
      using False m0 m53 lo by (simp add: mag_def r u_def e_def)
    then show ?thesis by (simp add: e_def m_def u)
  qed
qed

lemma mag_fixed:
  assumes "mag e m r"
  shows "round_mag r = r"
proof -
  define u where "u = pow2 (e - 52)"
  have u: "0 < u" by (simp add: u_def)
  from assms have r: "r = of_int m * u" and e: "- 1022 \<le> e" and m: "0 < m" "m \<le> 2 ^ 53"
    and lo: "2 ^ 52 \<le> m \<or> e = - 1022"
    by (simp_all add: mag_def u_def)
  have rp: "0 < r" using m(1) u by (simp add: r)
  show ?thesis
  proof (cases "m = 2 ^ 53")
    case True
    have r1: "r = pow2 (e + 1)"
      using pow2_split [of "e + 1" 53] by (simp add: r True u_def)
    have "ilog2 r = e + 1" by (rule ilog2_unique) (simp_all add: r1)
    then have q: "quantum r = pow2 (e + 1 - 52)" using e by (simp add: quantum_def max_def)
    have F: "r = of_int (2 ^ 52) * pow2 (e + 1 - 52)"
      using pow2_split [of "e + 1" 52] by (simp add: r1)
    have "r / pow2 (e + 1 - 52) = of_int (2 ^ 52)" by (subst F) simp
    then have "r / quantum r = of_int (2 ^ 52)" by (simp only: q)
    then have "rhe (r / quantum r) = 2 ^ 52" by (simp only: rhe_of_int)
    then have "round_mag r = of_int (2 ^ 52) * pow2 (e + 1 - 52)"
      using rp by (simp add: round_mag_def q)
    also have "\<dots> = r" using pow2_split [of "e + 1" 52] by (simp add: r1)
    finally show ?thesis .
  next
    case False
    with m(2) have m53: "m < 2 ^ 53" by simp
    then have "(of_int m :: rat) < of_int (2 ^ 53)" by (simp only: of_int_less_iff)
    then have "of_int m * u < 2 ^ 53 * u" using u by simp
    also have "2 ^ 53 * u = pow2 (e + 1)" using pow2_split [of "e + 1" 53] by (simp add: u_def)
    finally have hi: "r < pow2 (e + 1)" by (simp add: r)
    have "max (ilog2 r) (- 1022) = e"
    proof (cases "2 ^ 52 \<le> m")
      case True
      then have "(of_int (2 ^ 52) :: rat) \<le> of_int m" by (simp only: of_int_le_iff)
      then have "2 ^ 52 * u \<le> of_int m * u" using u by simp
      moreover have "2 ^ 52 * u = pow2 e" using pow2_split [of e 52] by (simp add: u_def)
      ultimately have "pow2 e \<le> r" by (simp add: r)
      then have "ilog2 r = e" using hi by (rule ilog2_unique)
      then show ?thesis using e by simp
    next
      case False
      with lo have e1: "e = - 1022" by simp
      from ilog2_bounds [OF rp] have "pow2 (ilog2 r) \<le> r" by simp
      with hi have "pow2 (ilog2 r) < pow2 (e + 1)" by linarith
      then have "ilog2 r \<le> e" by simp
      then show ?thesis by (simp add: e1)
    qed
    then have q: "quantum r = u" by (simp add: quantum_def u_def)
    have "r / u = of_int m" using u by (simp add: r)
    then have "rhe (r / quantum r) = m" by (simp add: q)
    moreover have "round_mag r = of_int (rhe (r / quantum r)) * quantum r"
      using rp by (simp add: round_mag_def)
    ultimately have "round_mag r = of_int m * u" by (simp only: q)
    then show ?thesis by (simp only: r)
  qed
qed

lemma round_mag_idem: "0 \<le> q \<Longrightarrow> round_mag (round_mag q) = round_mag q"
proof (cases "q = 0")
  case True
  then show ?thesis by (simp add: round_mag_def)
next
  case False
  assume "0 \<le> q"
  with False have "0 < q" by simp
  from round_mag_mag [OF this] show ?thesis
    by (auto simp: round_mag_def [of 0] dest: mag_fixed)
qed

lemma round_mag_nonneg: "0 \<le> q \<Longrightarrow> 0 \<le> round_mag q"
proof -
  assume q: "0 \<le> q"
  have "of_int 0 \<le> q / quantum q" using q by simp
  then have "0 \<le> rhe (q / quantum q)" by (rule rhe_ge)
  then show ?thesis by (simp add: round_mag_def)
qed

lemma round_cents_err: "\<bar>round_cents r - r\<bar> \<le> 1 / 200"
proof -
  have "\<bar>of_int (rhe (r * 100)) - r * 100\<bar> \<le> 1 / 2" by (rule rhe_err)
  then show ?thesis by (simp add: round_cents_def field_simps abs_if split: if_splits)
qed

lemma round_cents_of_int [simp]: "round_cents (of_int k) = of_int k"
proof -
  have "of_int k * (100 :: rat) = of_int (k * 100)" by simp
  then have "rhe (of_int k * 100) = k * 100" by (simp only: rhe_of_int)
  then show ?thesis by (simp add: round_cents_def)
qed

lemma round_cents_grid:
  assumes "\<bar>r - of_int n / 100\<bar> < 1 / 200"
  shows "round_cents r = of_int n / 100"
proof -
  have "\<bar>r * 100 - of_int n\<bar> < 1 / 2" using assms by (simp add: field_simps abs_if split: if_splits)
  then have "rhe (r * 100) = n" by (rule rhe_unique)
  then show ?thesis by (simp add: round_cents_def)
qed

lemma round_cents_round_mag_small:
  assumes "0 < q" "q < pow2 46" "q = of_int n / 100"
  shows "round_cents (round_mag q) = q"
proof -
  from ilog2_bounds [OF assms(1)] have "pow2 (ilog2 q) \<le> q" by simp
  with assms(2) have "pow2 (ilog2 q) < pow2 46" by linarith
  then have "ilog2 q < 46" by (simp only: pow2_less_iff)
  then have "ilog2 q \<le> 45" by simp
  then have "max (ilog2 q) (- 1022) - 52 \<le> - 7" by simp
  then have "quantum q \<le> pow2 (- 7)" unfolding quantum_def by (simp only: pow2_le_iff)
  also have "pow2 (- 7) = 1 / 128" by (simp add: pow2_def)
  finally have "quantum q / 2 \<le> 1 / 256" by simp
  with round_mag_err [OF assms(1)] have "\<bar>round_mag q - q\<bar> \<le> 1 / 256" by linarith
  then have "\<bar>round_mag q - of_int n / 100\<bar> < 1 / 200" unfolding assms(3) by linarith
  then show ?thesis unfolding assms(3) by (rule round_cents_grid)
qed

lemma round_mag_0 [simp]: "round_mag 0 = 0"
  by (simp add: round_mag_def)

lemma round_cents_0 [simp]: "round_cents 0 = 0"
  using round_cents_of_int [of 0] by simp

lemma round_mag_round_cents_big:
  assumes "mag e m r" "pow2 46 \<le> r"
  shows "round_mag (round_cents r) = r"
proof -
  define u where "u = pow2 (e - 52)"
  from assms(1) have r: "r = of_int m * u" and e: "- 1022 \<le> e" and m: "0 < m" "m \<le> 2 ^ 53"
    and lo: "2 ^ 52 \<le> m \<or> e = - 1022"
    by (simp_all add: mag_def u_def)
  have u: "0 < u" by (simp add: u_def)
  have pe: "pow2 e = 2 ^ 52 * u" using pow2_split [of e 52] by (simp add: u_def)
  have pe1: "pow2 (e + 1) = 2 ^ 53 * u" using pow2_split [of "e + 1" 53] by (simp add: u_def)
  have fixed: "round_mag r = r" using assms(1) by (rule mag_fixed)
  have m52: "2 ^ 52 \<le> m"
  proof (rule ccontr)
    assume "\<not> 2 ^ 52 \<le> m"
    with lo have e1: "e = - 1022" and "m < 2 ^ 52" by simp_all
    then have "(of_int m :: rat) < of_int (2 ^ 52)" by (simp only: of_int_less_iff)
    then have "of_int m * u < 2 ^ 52 * u" using u by simp
    then have "r < pow2 e" by (simp only: r pe)
    with assms(2) have "pow2 46 < pow2 e" by linarith
    then have "46 < e" by (simp only: pow2_less_iff)
    with e1 show False by simp
  qed
  have isint: "round_mag (round_cents r) = r" if "r = of_int k" for k
    using fixed that by simp
  show ?thesis
  proof (cases "52 \<le> e")
    case True
    then have "u = 2 ^ nat (e - 52)" by (simp add: u_def pow2_nat)
    then have "r = of_int (m * 2 ^ nat (e - 52))" by (simp add: r)
    then show ?thesis by (rule isint)
  next
    case e52: False
    show ?thesis
    proof (cases "m = 2 ^ 52")
      case True
      then have re: "r = pow2 e" by (simp add: r pe)
      with assms(2) have "46 \<le> e" by (simp only: pow2_le_iff)
      then have "r = 2 ^ nat e" by (simp add: re pow2_nat)
      then have "r = of_int (2 ^ nat e)" by simp
      then show ?thesis by (rule isint)
    next
      case n52: False
      show ?thesis
      proof (cases "m = 2 ^ 53")
        case True
        then have re: "r = pow2 (e + 1)" by (simp add: r pe1)
        with assms(2) have "46 \<le> e + 1" by (simp only: pow2_le_iff)
        then have "r = 2 ^ nat (e + 1)" by (simp add: re pow2_nat)
        then have "r = of_int (2 ^ nat (e + 1))" by simp
        then show ?thesis by (rule isint)
      next
        case n53: False
        from m52 n52 have "2 ^ 52 + 1 \<le> m" by simp
        then have "(of_int (2 ^ 52 + 1) :: rat) \<le> of_int m" by (simp only: of_int_le_iff)
        then have a: "(2 ^ 52 + 1 :: rat) \<le> of_int m" by simp
        from m(2) n53 have "m + 1 \<le> 2 ^ 53" by simp
        then have "(of_int (m + 1) :: rat) \<le> of_int (2 ^ 53)" by (simp only: of_int_le_iff)
        then have b: "(of_int m + 1 :: rat) \<le> 2 ^ 53" by simp
        from a have "(2 ^ 52 + 1) * u \<le> of_int m * u" using u by (simp only: mult_le_cancel_right) simp
        moreover have "(2 ^ 52 + 1) * u = 2 ^ 52 * u + u" by (simp only: distrib_right mult_1)
        ultimately have lo1: "pow2 e + u \<le> r" by (simp only: pe r)
        from b have "(of_int m + 1) * u \<le> 2 ^ 53 * u" using u by (simp only: mult_le_cancel_right) simp
        moreover have "(of_int m + 1) * u = of_int m * u + u" by (simp only: distrib_right mult_1)
        ultimately have hi1: "r + u \<le> pow2 (e + 1)" by (simp only: pe1 r)
        from hi1 u assms(2) have "pow2 46 < pow2 (e + 1)" by linarith
        then have "46 < e + 1" by (simp only: pow2_less_iff)
        then have e46: "- 6 \<le> e - 52" by simp
        have "pow2 (- 6) \<le> u" unfolding u_def using e46 by (simp only: pow2_le_iff)
        moreover have "pow2 (- 6) = 1 / 64" by (simp add: pow2_def)
        ultimately have u64: "1 / 64 \<le> u" by simp
        define d where "d = round_cents r"
        have err: "\<bar>d - r\<bar> \<le> 1 / 200" unfolding d_def by (rule round_cents_err)
        have d1: "pow2 e \<le> d" using err lo1 u64 by linarith
        have d2: "d < pow2 (e + 1)" using err hi1 u64 by linarith
        have il: "ilog2 d = e" using d1 d2 by (rule ilog2_unique)
        have qd: "quantum d = u" using e by (simp add: quantum_def il u_def)
        have dpos: "0 < d" using d1 pow2_pos [of e] by linarith
        have "d / u - of_int m = (d - r) / u" using u by (simp add: r field_simps)
        then have "\<bar>d / u - of_int m\<bar> = \<bar>(d - r) / u\<bar>" by simp
        also have "\<dots> = \<bar>d - r\<bar> / u" by (simp only: abs_divide abs_of_pos [OF u])
        also have "\<dots> < 1 / 2" using err u64 u by (simp add: pos_divide_less_eq)
        finally have "rhe (d / u) = m" by (rule rhe_unique)
        then have "round_mag d = r" using dpos by (simp add: round_mag_def qd r)
        then show ?thesis by (simp only: d_def)
      qed
    qed
  qed
qed

lemma round_mag_round_cents:
  assumes "0 \<le> n" "q = of_int n / 100"
  shows "round_mag (round_cents (round_mag q)) = round_mag q"
proof (cases "q = 0")
  case True
  then show ?thesis by simp
next
  case False
  with assms have q: "0 < q" by simp
  show ?thesis
  proof (cases "q < pow2 46")
    case True
    from q True assms(2) have "round_cents (round_mag q) = q" by (rule round_cents_round_mag_small)
    then show ?thesis by simp
  next
    case big: False
    from round_mag_mag [OF q] show ?thesis
    proof
      assume z: "round_mag q = 0"
      show ?thesis unfolding z by simp
    next
      let ?e = "max (ilog2 q) (- 1022)"
      let ?m = "rhe (q / quantum q)"
      assume g: "mag ?e ?m (round_mag q)"
      from ilog2_bounds [OF q] have "q < pow2 (ilog2 q + 1)" by simp
      with big have "pow2 46 < pow2 (ilog2 q + 1)" by linarith
      then have "46 < ilog2 q + 1" by (simp only: pow2_less_iff)
      then have e46: "46 \<le> ?e" by simp
      then have "?e \<noteq> - 1022" by linarith
      with g have m52: "2 ^ 52 \<le> ?m" and r: "round_mag q = of_int ?m * pow2 (?e - 52)"
        by (auto simp: mag_def)
      from m52 have "(of_int (2 ^ 52) :: rat) \<le> of_int ?m" by (simp only: of_int_le_iff)
      then have "2 ^ 52 * pow2 (?e - 52) \<le> of_int ?m * pow2 (?e - 52)"
        by (intro mult_right_mono) simp_all
      moreover have "pow2 ?e = 2 ^ 52 * pow2 (?e - 52)" using pow2_split [of ?e 52] by simp
      ultimately have "pow2 ?e \<le> round_mag q" by (simp only: r)
      moreover have "pow2 46 \<le> pow2 ?e" using e46 by (simp only: pow2_le_iff)
      ultimately have "pow2 46 \<le> round_mag q" by linarith
      with g show ?thesis by (rule round_mag_round_cents_big)
    qed
  qed
qed

lemma round2_fl_sgn:
  assumes "0 \<le> n"
  shows "round2 (fl_sgn False (of_int n / 100)) = fl_sgn False (of_int n / 100)"
proof -
  define q :: rat where "q = of_int n / 100"
  have q: "0 \<le> q" using assms by (simp add: q_def)
  define r where "r = round_mag q"
  have r: "0 \<le> r" unfolding r_def using q by (rule round_mag_nonneg)
  have k: "round_mag (round_cents r) = r"
    unfolding r_def using assms q_def by (rule round_mag_round_cents)
  show ?thesis
    unfolding q_def [symmetric]
    using r k by (simp add: fl_sgn_def Let_def r_def [symmetric] abs_of_nonneg)
qed

end
